theory Spec2Isabelle
  imports Complex_Main "HOL-Library.Word"
begin

section \<open>The frame muxer of the ffmpeg producer\<close>

text \<open>
  A shallow embedding of \<^verbatim>\<open>frame_muxer::impl\<close>
  (\<^verbatim>\<open>src/modules/ffmpeg/producer/muxer/frame_muxer.cpp\<close>).
  The object is a record, every member function takes the record and returns the
  updated one. A C++ exception, a failed \<^verbatim>\<open>CASPAR_VERIFY\<close> and an access the
  language leaves undefined (\<^verbatim>\<open>front()\<close> or \<^verbatim>\<open>back()\<close> of an empty container) are
  values of the type \<open>error\<close>; an operation that raises returns \<open>Inl\<close> of it and the
  object is given up.
\<close>

subsection \<open>Data\<close>

datatype error =
    Video_overflow        \<comment> \<open>\<^verbatim>\<open>invalid_operation\<close>, "video-stream overflow" (line 124)\<close>
  | Audio_overflow        \<comment> \<open>\<^verbatim>\<open>invalid_operation\<close>, "audio-stream overflow" (line 140)\<close>
  | Invalid_operation     \<comment> \<open>the bare \<^verbatim>\<open>invalid_operation()\<close> of line 238\<close>
  | Verify_failed         \<comment> \<open>\<^verbatim>\<open>CASPAR_VERIFY\<close> of line 253\<close>
  | Length_error          \<comment> \<open>\<^verbatim>\<open>std::vector(n, 0)\<close> with \<open>n\<close> converted from a negative int\<close>
  | Undefined_behaviour   \<comment> \<open>\<^verbatim>\<open>front()\<close>/\<^verbatim>\<open>back()\<close> of an empty container, iterator past the end\<close>

datatype display_mode =
  simple | duplicate | half | interlace | deinterlace_bob | deinterlace_bob_reinterlace
  | deinterlace | invalid

datatype field_mode = progressive | upper | lower

text \<open>\<^verbatim>\<open>int\<close> is 32 bits wide, \<^verbatim>\<open>size_t\<close> 64 bits; a sample is an \<^verbatim>\<open>int32_t\<close>.\<close>

type_synonym cint = "32 word"
type_synonym sample = "32 word"
type_synonym audio_buffer = "sample list"

text \<open>\<^verbatim>\<open>static_cast<size_t>(x)\<close> of an \<^verbatim>\<open>int\<close>: the value modulo \<open>2 ^ 64\<close>.\<close>

definition size_t_of_int :: "cint \<Rightarrow> nat" where
  "size_t_of_int x = nat (sint x mod 2 ^ 64)"

record av_frame =
  av_width :: int
  av_height :: int
  av_interlaced_frame :: int
  av_top_field_first :: int
  av_data :: "8 word list"

record mutable_frame =
  image_data :: "8 word list"
  audio_data :: audio_buffer

datatype draw_frame =
    Draw mutable_frame
  | Interlaced draw_frame draw_frame field_mode
      \<comment> \<open>the call \<^verbatim>\<open>draw_frame::interlace(frame1, frame2, mode)\<close>\<close>

record video_format_desc =
  fd_fps :: real
  fd_field_mode :: field_mode
  fd_height :: int
  fd_audio_cadence :: "cint list"

text \<open>
  What \<^verbatim>\<open>push_video\<close> and \<^verbatim>\<open>push_audio\<close> receive: a shared pointer that is null, one of
  the two sentinels (\<^verbatim>\<open>flush_video()\<close>, \<^verbatim>\<open>empty_video()\<close> and their audio twins), or data.
\<close>

datatype 'a packet = Nullptr | Flush | Empty | Data 'a

text \<open>
  The collaborators whose code is outside the file: the class \<^verbatim>\<open>filter\<close> with state
  \<open>'f\<close>, the helpers of \<^verbatim>\<open>util.h\<close>, the frame factory and \<^verbatim>\<open>boost::iequals\<close>. They are
  parameters of the model. Frame rates are \<^verbatim>\<open>double\<close> in the code and \<open>real\<close> here; they
  only flow into \<^verbatim>\<open>get_display_mode\<close>.
\<close>

record 'f env =
  filter_default :: 'f
  filter_ctor :: "string \<Rightarrow> 'f"
  filter_push :: "'f \<Rightarrow> av_frame \<Rightarrow> 'f"
  filter_poll :: "'f \<Rightarrow> av_frame option \<times> 'f"
  filter_poll_all :: "'f \<Rightarrow> av_frame list \<times> 'f"
  filter_get_str :: "'f \<Rightarrow> string"
  filter_delay :: "'f \<Rightarrow> cint"
  filter_is_double_rate :: "'f \<Rightarrow> bool"
  is_deinterlacing :: "string \<Rightarrow> bool"
  is_double_rate :: "string \<Rightarrow> bool"
  get_mode :: "av_frame \<Rightarrow> field_mode"
  get_display_mode :: "field_mode \<Rightarrow> real \<Rightarrow> field_mode \<Rightarrow> real \<Rightarrow> display_mode"
  append_filter :: "string \<Rightarrow> string \<Rightarrow> string"
  make_frame :: "av_frame \<Rightarrow> real \<Rightarrow> mutable_frame"
  create_frame :: mutable_frame
  iequals :: "string \<Rightarrow> string \<Rightarrow> bool"

text \<open>The members of \<^verbatim>\<open>frame_muxer::impl\<close>; the front of a queue is the head of its list.\<close>

record 'f impl =
  video_streams :: "mutable_frame list list"
  audio_streams :: "audio_buffer list"
  frame_buffer :: "draw_frame list"
  display_mode :: display_mode
  in_fps :: real
  format_desc :: video_format_desc
  audio_cadence :: "cint list"
  filter_obj :: 'f
  filter_str :: string

subsection \<open>Plumbing for results\<close>

definition bind_r :: "error + 'a \<Rightarrow> ('a \<Rightarrow> error + 'b) \<Rightarrow> error + 'b" where
  "bind_r m f = (case m of Inl e \<Rightarrow> Inl e | Inr x \<Rightarrow> f x)"

text \<open>\<^verbatim>\<open>boost::range::push_back(q.back(), xs)\<close>: \<^verbatim>\<open>back()\<close> is evaluated whatever \<open>xs\<close> is.\<close>

definition push_back :: "'a list \<Rightarrow> 'a list list \<Rightarrow> error + 'a list list" where
  "push_back xs q =
     (if q = [] then Inl Undefined_behaviour
      else Inr (butlast q @ [last q @ xs]))"

text \<open>\<^verbatim>\<open>q.back().push(x)\<close> for each \<open>x\<close> of \<open>xs\<close>, in order; no call when \<open>xs\<close> is empty.\<close>

definition push_each :: "'a list \<Rightarrow> 'a list list \<Rightarrow> error + 'a list list" where
  "push_each xs q = (if xs = [] then Inr q else push_back xs q)"

subsection \<open>Construction\<close>

text \<open>
  Lines 84 to 98. \<^verbatim>\<open>rotate(audio_cadence_, end - 1)\<close> makes the last entry the first;
  on an empty cadence \<^verbatim>\<open>end - 1\<close> is not an iterator of the vector.
\<close>

definition impl_new ::
  "'f env \<Rightarrow> real \<Rightarrow> video_format_desc \<Rightarrow> string \<Rightarrow> error + 'f impl" where
  "impl_new e fps fd fstr =
     (if fd_audio_cadence fd = [] then Inl Undefined_behaviour
      else Inr \<lparr> video_streams = [[]], audio_streams = [[]], frame_buffer = [],
                 display_mode = invalid, in_fps = fps, format_desc = fd,
                 audio_cadence = last (fd_audio_cadence fd) # butlast (fd_audio_cadence fd),
                 filter_obj = filter_default e, filter_str = fstr \<rparr>)"

subsection \<open>Popping one unit\<close>

text \<open>Lines 244 to 249.\<close>

definition pop_video :: "'f impl \<Rightarrow> error + (mutable_frame \<times> 'f impl)" where
  "pop_video s =
     (case video_streams s of
        [] \<Rightarrow> Inl Undefined_behaviour
      | v # vs \<Rightarrow>
          (case v of
             [] \<Rightarrow> Inl Undefined_behaviour
           | f # fs \<Rightarrow> Inr (f, s\<lparr>video_streams := fs # vs\<rparr>)))"

text \<open>
  Modelled from the spec: the macro \<^verbatim>\<open>CASPAR_VERIFY\<close> of \<^verbatim>\<open>common/assert.h\<close>, which is
  outside the file. The specification calls its failure a programming-error assertion
  that is not recoverable, so a false condition ends the operation with \<open>Verify_failed\<close>.
\<close>

definition caspar_verify :: "bool \<Rightarrow> error + unit" where
  "caspar_verify cond = (if cond then Inr () else Inl Verify_failed)"

text \<open>
  Lines 251 to 264. \<^verbatim>\<open>rotate(audio_cadence_, begin + 1)\<close> makes the second entry the
  first. A negative cadence head that passes the assertion would make \<^verbatim>\<open>end\<close> an
  iterator before \<^verbatim>\<open>begin\<close>.
\<close>

definition pop_audio :: "'f impl \<Rightarrow> error + (audio_buffer \<times> 'f impl)" where
  "pop_audio s =
     (case audio_streams s of
        [] \<Rightarrow> Inl Undefined_behaviour
      | a # as \<Rightarrow>
          (case audio_cadence s of
             [] \<Rightarrow> Inl Undefined_behaviour
           | c # cs \<Rightarrow>
               bind_r (caspar_verify (length a \<ge> size_t_of_int c)) (\<lambda>verified.
                 if sint c < 0 then Inl Undefined_behaviour
                 else Inr (take (nat (sint c)) a,
                           s\<lparr>audio_streams := drop (nat (sint c)) a # as,
                             audio_cadence := rotate1 (c # cs)\<rparr>))))"

subsection \<open>Readiness\<close>

text \<open>Lines 153 to 164.\<close>

definition video_ready2 :: "'f impl \<Rightarrow> error + bool" where
  "video_ready2 s =
     (case video_streams s of
        [] \<Rightarrow> Inl Undefined_behaviour
      | v # vs \<Rightarrow>
          Inr (case display_mode s of
                 deinterlace_bob_reinterlace \<Rightarrow> length v \<ge> 2
               | interlace \<Rightarrow> length v \<ge> 2
               | half \<Rightarrow> length v \<ge> 2
               | _ \<Rightarrow> length v \<ge> 1))"

text \<open>Lines 166 to 175.\<close>

definition audio_ready2 :: "'f impl \<Rightarrow> error + bool" where
  "audio_ready2 s =
     (case audio_streams s of
        [] \<Rightarrow> Inl Undefined_behaviour
      | a # as \<Rightarrow>
          (case audio_cadence s of
             [] \<Rightarrow> Inl Undefined_behaviour
           | c # cs \<Rightarrow>
               Inr (case display_mode s of
                      duplicate \<Rightarrow> length a div 2 \<ge> size_t_of_int c
                    | _ \<Rightarrow> length a \<ge> size_t_of_int c)))"

text \<open>Lines 143 to 151; \<^verbatim>\<open>||\<close> and \<^verbatim>\<open>&&\<close> evaluate their right operand only when needed.\<close>

definition video_ready :: "'f impl \<Rightarrow> error + bool" where
  "video_ready s =
     (if length (video_streams s) > 1 then Inr True
      else if length (video_streams s) \<ge> length (audio_streams s) then video_ready2 s
      else Inr False)"

definition audio_ready :: "'f impl \<Rightarrow> error + bool" where
  "audio_ready s =
     (if length (audio_streams s) > 1 then Inr True
      else if length (audio_streams s) \<ge> length (video_streams s) then audio_ready2 s
      else Inr False)"

subsection \<open>Pushing\<close>

text \<open>Lines 123 and 124.\<close>

definition check_video :: "'f impl \<Rightarrow> error + 'f impl" where
  "check_video s =
     (if video_streams s = [] then Inl Undefined_behaviour
      else if length (last (video_streams s)) > 32 then Inl Video_overflow
      else Inr s)"

text \<open>
  Lines 139 and 140. The product \<^verbatim>\<open>32*audio_cadence_.front()\<close> is computed in \<^verbatim>\<open>int\<close>,
  where overflow is undefined, and then converted to \<^verbatim>\<open>size_t\<close>.
\<close>

definition check_audio :: "'f impl \<Rightarrow> error + 'f impl" where
  "check_audio s =
     (if audio_streams s = [] then Inl Undefined_behaviour
      else case audio_cadence s of
             [] \<Rightarrow> Inl Undefined_behaviour
           | c # cs \<Rightarrow>
               if 32 * sint c < - (2 ^ 31) \<or> 2 ^ 31 \<le> 32 * sint c then Inl Undefined_behaviour
               else if length (last (audio_streams s)) > size_t_of_int (32 * c)
                    then Inl Audio_overflow
               else Inr s)"

text \<open>Lines 132 to 137: what \<^verbatim>\<open>push_audio\<close> does to the buffers for a pointer that is not null.\<close>

definition enqueue_audio :: "audio_buffer packet \<Rightarrow> 'f impl \<Rightarrow> error + 'f impl" where
  "enqueue_audio audio s =
     (case audio of
        Flush \<Rightarrow> Inr (s\<lparr>audio_streams := audio_streams s @ [[]]\<rparr>)
      | Empty \<Rightarrow>
          (case audio_cadence s of
             [] \<Rightarrow> Inl Undefined_behaviour
           | c # cs \<Rightarrow>
               if sint c < 0 then Inl Length_error
               else bind_r (push_back (replicate (size_t_of_int c) 0) (audio_streams s))
                      (\<lambda>q. Inr (s\<lparr>audio_streams := q\<rparr>)))
      | Data a \<Rightarrow>
          bind_r (push_back a (audio_streams s)) (\<lambda>q. Inr (s\<lparr>audio_streams := q\<rparr>))
      | Nullptr \<Rightarrow> Inr s)"

text \<open>Lines 127 to 141.\<close>

definition push_audio :: "audio_buffer packet \<Rightarrow> 'f impl \<Rightarrow> error + 'f impl" where
  "push_audio audio s =
     (if audio = Nullptr then Inr s
      else bind_r (enqueue_audio audio s) check_audio)"

text \<open>
  Lines 306 to 312, the loop of \<^verbatim>\<open>update_display_mode\<close>: \<open>n\<close> counts up to
  \<^verbatim>\<open>filter_.delay()\<close>, read again at every round. The counter stays below the delay,
  which is an \<^verbatim>\<open>int\<close>, so \<^verbatim>\<open>++n\<close> never overflows and the loop ends.
\<close>

function drain_filter :: "'f env \<Rightarrow> av_frame \<Rightarrow> int \<Rightarrow> 'f impl \<Rightarrow> error + 'f impl" where
  "drain_filter e frame n s =
     (if n < sint (filter_delay e (filter_obj s)) then
        (let f1 = filter_push e (filter_obj s) frame;
             r = filter_poll e f1;
             s1 = s\<lparr>filter_obj := snd r\<rparr>
         in case fst r of
              None \<Rightarrow> drain_filter e frame (n + 1) s1
            | Some av \<Rightarrow>
                (case push_back [make_frame e av (fd_fps (format_desc s1))] (video_streams s1) of
                   Inl err \<Rightarrow> Inl err
                 | Inr q \<Rightarrow> drain_filter e frame (n + 1) (s1\<lparr>video_streams := q\<rparr>)))
      else Inr s)"
  by pat_completeness auto
termination
proof (relation "measure (\<lambda>(e, frame, n, s). nat (2 ^ 31 - n))")
  show "wf (measure (\<lambda>(e :: 'f env, frame :: av_frame, n :: int, s :: 'f impl). nat (2 ^ 31 - n)))"
    by simp
next
  fix e :: "'f env" and frame n and s :: "'f impl" and f1 r s1
  assume "n < sint (filter_delay e (filter_obj s))"
  moreover have "sint (filter_delay e (filter_obj s)) < 2 ^ 31"
    using sint_lt [of "filter_delay e (filter_obj s)"] by simp
  ultimately show "((e, frame, n + 1, s1), (e, frame, n, s))
      \<in> measure (\<lambda>(e, frame, n, s). nat (2 ^ 31 - n))"
    by simp
next
  fix e :: "'f env" and frame n and s :: "'f impl" and f1 r s1 av q
  assume "n < sint (filter_delay e (filter_obj s))"
  moreover have "sint (filter_delay e (filter_obj s)) < 2 ^ 31"
    using sint_lt [of "filter_delay e (filter_obj s)"] by simp
  ultimately show "((e, frame, n + 1, s1\<lparr>video_streams := q\<rparr>), (e, frame, n, s))
      \<in> measure (\<lambda>(e, frame, n, s). nat (2 ^ 31 - n))"
    by simp
qed

text \<open>Lines 266 to 316; the two log lines leave no trace in the state.\<close>

definition update_display_mode :: "'f env \<Rightarrow> av_frame \<Rightarrow> 'f impl \<Rightarrow> error + 'f impl" where
  "update_display_mode e frame s =
     (let fd = format_desc s;
          mode0 = get_mode e frame;
          mode1 = (if mode0 = progressive \<and> av_height frame < 720 \<and> in_fps s < 50
                   then upper else mode0);
          mode2 = (if is_deinterlacing e (filter_str s) then progressive else mode1);
          fps = (if is_double_rate e (filter_str s) then in_fps s * 2 else in_fps s);
          dm0 = get_display_mode e mode2 fps (fd_field_mode fd) (fd_fps fd);
          dm1 = (if (av_height frame \<noteq> 480 \<or> fd_height fd \<noteq> 486) \<and> dm0 = simple
                    \<and> mode2 \<noteq> progressive \<and> fd_field_mode fd \<noteq> progressive
                    \<and> av_height frame \<noteq> fd_height fd
                 then deinterlace_bob_reinterlace else dm0);
          fstr = (if dm1 = deinterlace then append_filter e (filter_str s) ''YADIF=0:-1''
                  else if dm1 = deinterlace_bob \<or> dm1 = deinterlace_bob_reinterlace
                       then append_filter e (filter_str s) ''YADIF=1:-1''
                  else filter_str s);
          dm2 = (if dm1 = invalid then simple else dm1);
          s1 = s\<lparr>display_mode := dm2\<rparr>
      in if \<not> iequals e (filter_get_str e (filter_obj s1)) fstr
         then bind_r (drain_filter e frame 0 s1)
                (\<lambda>s2. Inr (s2\<lparr>filter_obj := filter_ctor e fstr\<rparr>))
         else Inr s1)"

text \<open>Lines 105 to 121: what \<^verbatim>\<open>push_video\<close> does to the buffers for a pointer that is not null.\<close>

definition enqueue_video :: "'f env \<Rightarrow> av_frame packet \<Rightarrow> 'f impl \<Rightarrow> error + 'f impl" where
  "enqueue_video e video_frame s =
     (case video_frame of
        Flush \<Rightarrow> Inr (s\<lparr>video_streams := video_streams s @ [[]]\<rparr>)
      | Empty \<Rightarrow>
          bind_r (push_back [create_frame e] (video_streams s))
            (\<lambda>q. Inr (s\<lparr>video_streams := q, display_mode := simple\<rparr>))
      | Data frame \<Rightarrow>
          bind_r (if display_mode s = invalid then update_display_mode e frame s else Inr s)
            (\<lambda>s1. let r = filter_poll_all e (filter_push e (filter_obj s1) frame);
                       s2 = s1\<lparr>filter_obj := snd r\<rparr>
                   in bind_r (push_each (map (\<lambda>av. make_frame e av (fd_fps (format_desc s2)))
                                           (fst r))
                                (video_streams s2))
                        (\<lambda>q. Inr (s2\<lparr>video_streams := q\<rparr>)))
      | Nullptr \<Rightarrow> Inr s)"

text \<open>Lines 100 to 125.\<close>

definition push_video :: "'f env \<Rightarrow> av_frame packet \<Rightarrow> 'f impl \<Rightarrow> error + 'f impl" where
  "push_video e video_frame s =
     (if video_frame = Nullptr then Inr s
      else bind_r (enqueue_video e video_frame s) check_video)"

subsection \<open>Assembling output frames\<close>

text \<open>Lines 186 to 193; the log line leaves no trace in the state.\<close>

definition truncate_segments :: "'f impl \<Rightarrow> error + 'f impl" where
  "truncate_segments s =
     (if length (video_streams s) > 1 \<and> length (audio_streams s) > 1 then
        bind_r (video_ready2 s) (\<lambda>vr.
          if \<not> vr
          then Inr (s\<lparr>video_streams := tl (video_streams s),
                      audio_streams := tl (audio_streams s)\<rparr>)
          else bind_r (audio_ready2 s) (\<lambda>ar.
            if \<not> ar
            then Inr (s\<lparr>video_streams := tl (video_streams s),
                        audio_streams := tl (audio_streams s)\<rparr>)
            else Inr s))
      else Inr s)"

text \<open>Line 195: the condition under which \<^verbatim>\<open>try_pop\<close> returns false.\<close>

definition not_ready :: "'f impl \<Rightarrow> error + bool" where
  "not_ready s =
     bind_r (video_ready2 s) (\<lambda>vr.
       if \<not> vr then Inr True
       else bind_r (audio_ready2 s) (\<lambda>ar.
         if \<not> ar then Inr True else Inr (display_mode s = invalid)))"

text \<open>Lines 198 to 239: one video unit, its audio, and the branch on the display mode.\<close>

definition push_frame :: "draw_frame \<Rightarrow> 'f impl \<Rightarrow> 'f impl" where
  "push_frame d s = s\<lparr>frame_buffer := frame_buffer s @ [d]\<rparr>"

definition mux_frame :: "'f impl \<Rightarrow> error + 'f impl" where
  "mux_frame s =
     bind_r (pop_video s) (\<lambda>(f, s1).
     bind_r (pop_audio s1) (\<lambda>(a, s2).
       let frame1 = f\<lparr>audio_data := a\<rparr> in
       case display_mode s2 of
         simple \<Rightarrow> Inr (push_frame (Draw frame1) s2)
       | deinterlace_bob \<Rightarrow> Inr (push_frame (Draw frame1) s2)
       | deinterlace \<Rightarrow> Inr (push_frame (Draw frame1) s2)
       | interlace \<Rightarrow>
           bind_r (pop_video s2) (\<lambda>(frame2, s3).
             Inr (push_frame (Interlaced (Draw frame1) (Draw frame2)
                                (fd_field_mode (format_desc s3))) s3))
       | deinterlace_bob_reinterlace \<Rightarrow>
           bind_r (pop_video s2) (\<lambda>(frame2, s3).
             Inr (push_frame (Interlaced (Draw frame1) (Draw frame2)
                                (fd_field_mode (format_desc s3))) s3))
       | duplicate \<Rightarrow>
           bind_r (pop_audio s2) (\<lambda>(a2, s3).
             let d = Draw (frame1\<lparr>audio_data := audio_data frame1 @ a2\<rparr>)
             in Inr (push_frame d (push_frame d s3)))
       | half \<Rightarrow>
           bind_r (pop_video s2) (\<lambda>(thrown_away, s3).
             Inr (push_frame (Draw frame1) s3))
       | invalid \<Rightarrow> Inl Invalid_operation))"

text \<open>
  Lines 195 to 240: either \<^verbatim>\<open>try_pop\<close> returns false, or it has pushed into
  \<^verbatim>\<open>frame_buffer_\<close> and calls itself.
\<close>

datatype 'f pop_step = Return_false "'f impl" | Retry "'f impl"

definition assemble :: "'f impl \<Rightarrow> error + 'f pop_step" where
  "assemble s =
     bind_r (not_ready s) (\<lambda>nr.
       if nr then Inr (Return_false s)
       else bind_r (mux_frame s) (\<lambda>s2. Inr (Retry s2)))"

text \<open>Lines 186 to 240 as one step: the segment boundary first, then the rest.\<close>

definition try_pop_step :: "'f impl \<Rightarrow> error + 'f pop_step" where
  "try_pop_step s = bind_r (truncate_segments s) assemble"

subsection \<open>The frame count\<close>

text \<open>Lines 318 to 338: \<^verbatim>\<open>uint32_t\<close> in, \<^verbatim>\<open>uint64_t\<close> inside, cast back to \<^verbatim>\<open>uint32_t\<close>.\<close>

definition calc_nb_frames :: "'f env \<Rightarrow> 'f impl \<Rightarrow> 32 word \<Rightarrow> 32 word" where
  "calc_nb_frames e s nb_frames =
     (let n0 = (ucast nb_frames :: 64 word);
          n1 = (if filter_is_double_rate e (filter_obj s) then n0 * 2 else n0);
          n2 = (case display_mode s of
                  deinterlace_bob_reinterlace \<Rightarrow> n1 div 2
                | interlace \<Rightarrow> n1 div 2
                | half \<Rightarrow> n1 div 2
                | duplicate \<Rightarrow> n1 * 2
                | _ \<Rightarrow> n1)
      in ucast n2)"

subsection \<open>The pop routine\<close>

text \<open>
  Lines 177 to 242. The result is the frame moved into \<^verbatim>\<open>result\<close> (\<open>None\<close> when the
  function returns false) and the state. The last line is the call of itself.
\<close>

function try_pop :: "'f impl \<Rightarrow> error + (draw_frame option \<times> 'f impl)" where
  "try_pop s =
     (if frame_buffer s \<noteq> []
      then Inr (Some (hd (frame_buffer s)), s\<lparr>frame_buffer := tl (frame_buffer s)\<rparr>)
      else case try_pop_step s of
             Inl err \<Rightarrow> Inl err
           | Inr (Return_false s1) \<Rightarrow> Inr (None, s1)
           | Inr (Retry s2) \<Rightarrow> try_pop s2)"
  by pat_completeness auto
termination
proof (relation "measure (\<lambda>s. if frame_buffer s = [] then 1 else 0)")
  show "wf (measure (\<lambda>s :: 'f impl. if frame_buffer s = [] then 1 else 0))"
    by simp
next
  fix s :: "'f impl" and x s2
  assume empty: "\<not> frame_buffer s \<noteq> []"
    and step: "try_pop_step s = Inr x" and x: "x = Retry s2"
  from step x obtain s1 where "mux_frame s1 = Inr s2"
    by (auto simp: try_pop_step_def assemble_def bind_r_def split: sum.splits if_splits)
  then have "frame_buffer s2 \<noteq> []"
    by (auto simp: mux_frame_def bind_r_def push_frame_def Let_def
        split: sum.splits prod.splits display_mode.splits)
  with empty show "(s2, s) \<in> measure (\<lambda>s. if frame_buffer s = [] then 1 else 0)"
    by simp
qed

text \<open>The number of activations of \<^verbatim>\<open>try_pop\<close> that one call from outside stacks up.\<close>

function try_pop_depth :: "'f impl \<Rightarrow> nat" where
  "try_pop_depth s =
     (if frame_buffer s \<noteq> [] then 1
      else case try_pop_step s of
             Inl err \<Rightarrow> 1
           | Inr (Return_false s1) \<Rightarrow> 1
           | Inr (Retry s2) \<Rightarrow> 1 + try_pop_depth s2)"
  by pat_completeness auto
termination
proof (relation "measure (\<lambda>s. if frame_buffer s = [] then 1 else 0)")
  show "wf (measure (\<lambda>s :: 'f impl. if frame_buffer s = [] then 1 else 0))"
    by simp
next
  fix s :: "'f impl" and x s2
  assume empty: "\<not> frame_buffer s \<noteq> []"
    and step: "try_pop_step s = Inr x" and x: "x = Retry s2"
  from step x obtain s1 where "mux_frame s1 = Inr s2"
    by (auto simp: try_pop_step_def assemble_def bind_r_def split: sum.splits if_splits)
  then have "frame_buffer s2 \<noteq> []"
    by (auto simp: mux_frame_def bind_r_def push_frame_def Let_def
        split: sum.splits prod.splits display_mode.splits)
  with empty show "(s2, s) \<in> measure (\<lambda>s. if frame_buffer s = [] then 1 else 0)"
    by simp
qed

subsection \<open>Callers\<close>

text \<open>A caller that pops audio \<open>k\<close> times in a row and keeps the chunks.\<close>

fun pop_audio_times :: "nat \<Rightarrow> 'f impl \<Rightarrow> error + (audio_buffer list \<times> 'f impl)" where
  "pop_audio_times 0 s = Inr ([], s)"
| "pop_audio_times (Suc k) s =
     bind_r (pop_audio s) (\<lambda>(a, s1).
     bind_r (pop_audio_times k s1) (\<lambda>(chunks, s2). Inr (a # chunks, s2)))"


text \<open>A client that drives the muxer through its public operations, one after the other.\<close>

datatype muxer_op =
  Push_video "av_frame packet" | Push_audio "audio_buffer packet" | Try_pop

definition apply_op :: "'f env \<Rightarrow> muxer_op \<Rightarrow> 'f impl \<Rightarrow> error + 'f impl" where
  "apply_op e operation s =
     (case operation of
        Push_video video_frame \<Rightarrow> push_video e video_frame s
      | Push_audio audio \<Rightarrow> push_audio audio s
      | Try_pop \<Rightarrow> bind_r (try_pop s) (\<lambda>(result, s'). Inr s'))"

fun run :: "'f env \<Rightarrow> muxer_op list \<Rightarrow> 'f impl \<Rightarrow> error + 'f impl" where
  "run e [] s = Inr s"
| "run e (operation # rest) s = bind_r (apply_op e operation s) (\<lambda>s'. run e rest s')"

text \<open>
  A stand-in for the collaborators, for running the model on concrete inputs: a filter
  that hands every frame through unchanged, with no delay.
\<close>

definition passthrough :: "av_frame list env" where
  "passthrough =
     \<lparr> filter_default = [],
       filter_ctor = (\<lambda>str. []),
       filter_push = (\<lambda>f frame. f @ [frame]),
       filter_poll = (\<lambda>f. case f of [] \<Rightarrow> (None, []) | x # xs \<Rightarrow> (Some x, xs)),
       filter_poll_all = (\<lambda>f. (f, [])),
       filter_get_str = (\<lambda>f. []),
       filter_delay = (\<lambda>f. 0),
       filter_is_double_rate = (\<lambda>f. False),
       is_deinterlacing = (\<lambda>str. False),
       is_double_rate = (\<lambda>str. False),
       get_mode = (\<lambda>frame. if av_interlaced_frame frame > 0
                             then (if av_top_field_first frame > 0 then upper else lower)
                             else progressive),
       get_display_mode = (\<lambda>in_mode in_fps out_mode out_fps. simple),
       append_filter = (\<lambda>a b. a @ b),
       make_frame = (\<lambda>frame fps. \<lparr>image_data = av_data frame, audio_data = []\<rparr>),
       create_frame = \<lparr>image_data = [], audio_data = []\<rparr>,
       iequals = (=) \<rparr>"

text \<open>A state with the given buffers, display mode and live cadence, all else fixed.\<close>

definition example_state ::
  "mutable_frame list list \<Rightarrow> audio_buffer list \<Rightarrow> display_mode \<Rightarrow> cint list
     \<Rightarrow> av_frame list impl" where
  "example_state vs as m cad =
     \<lparr> video_streams = vs, audio_streams = as, frame_buffer = [], display_mode = m,
       in_fps = 25,
       format_desc = \<lparr>fd_fps = 25, fd_field_mode = progressive, fd_height = 576,
                       fd_audio_cadence = cad\<rparr>,
       audio_cadence = cad, filter_obj = [], filter_str = [] \<rparr>"



definition blank :: mutable_frame where
  "blank = \<lparr>image_data = [], audio_data = []\<rparr>"

subsection \<open>Side conditions\<close>

text \<open>The comparison of line 139 is defined: a cadence head whose 32-fold is an \<^verbatim>\<open>int\<close>.\<close>

definition audio_bound_defined :: "'f impl \<Rightarrow> bool" where
  "audio_bound_defined s =
     (case audio_cadence s of
        [] \<Rightarrow> False
      | c # cs \<Rightarrow> - (2 ^ 31) \<le> 32 * sint c \<and> 32 * sint c < 2 ^ 31)"

text \<open>
  What \<open>n\<close> Duplicate ticks in a row need of a front audio segment of \<open>len\<close> samples under
  the live cadence: at each tick twice the cadence head (the readiness test of line 171)
  and the head plus the next entry (the two pops of lines 199 and 223).
\<close>

fun duplicate_audio_enough :: "cint list \<Rightarrow> nat \<Rightarrow> nat \<Rightarrow> bool" where
  "duplicate_audio_enough cad 0 len = True"
| "duplicate_audio_enough cad (Suc n) len =
     (case cad of
        [] \<Rightarrow> False
      | c1 # cs \<Rightarrow>
          (case cs @ [c1] of
             [] \<Rightarrow> False
           | c2 # cs2 \<Rightarrow>
               0 \<le> sint c1 \<and> 0 \<le> sint c2 \<and>
               2 * nat (sint c1) \<le> len \<and> nat (sint c1) + nat (sint c2) \<le> len \<and>
               duplicate_audio_enough (cs2 @ [c2]) n (len - (nat (sint c1) + nat (sint c2)))))"

subsection \<open>The specification's words\<close>

text \<open>Units of the front video segment that one output tick needs.\<close>

definition spec_video_units :: "display_mode \<Rightarrow> nat" where
  "spec_video_units m =
     (if m = deinterlace_bob_reinterlace \<or> m = interlace \<or> m = half then 2 else 1)"

text \<open>Samples of the front audio segment that one output tick needs, for cadence head \<open>c\<close>.\<close>

definition spec_audio_samples :: "display_mode \<Rightarrow> nat \<Rightarrow> nat" where
  "spec_audio_samples m c = (if m = duplicate then 2 * c else c)"

text \<open>The projected frame count over the natural numbers, with no word size.\<close>

definition spec_nb_frames :: "bool \<Rightarrow> display_mode \<Rightarrow> nat \<Rightarrow> nat" where
  "spec_nb_frames double_rate m n =
     (let n1 = (if double_rate then n * 2 else n)
      in if m = interlace \<or> m = deinterlace_bob_reinterlace \<or> m = half then n1 div 2
         else if m = duplicate then n1 * 2
         else n1)"

subsection \<open>Relations between the states before and after an operation\<close>

text \<open>
  What a push of video may change: the last video segment, the filter and the display
  mode. The other segments stay in place, the audio side and the output buffer are kept.
\<close>

definition video_pushed :: "'f impl \<Rightarrow> 'f impl \<Rightarrow> bool" where
  "video_pushed s s' \<longleftrightarrow>
     audio_streams s' = audio_streams s \<and> audio_cadence s' = audio_cadence s \<and>
     format_desc s' = format_desc s \<and> frame_buffer s' = frame_buffer s \<and>
     length (video_streams s') = length (video_streams s) \<and>
     butlast (video_streams s') = butlast (video_streams s)"

text \<open>
  What popping units off the two front segments keeps: the number of segments and every
  segment behind the front one, in both streams.
\<close>

definition fronts_popped :: "'f impl \<Rightarrow> 'f impl \<Rightarrow> bool" where
  "fronts_popped s s' \<longleftrightarrow>
     format_desc s' = format_desc s \<and> display_mode s' = display_mode s \<and>
     length (video_streams s') = length (video_streams s) \<and>
     tl (video_streams s') = tl (video_streams s) \<and>
     length (audio_streams s') = length (audio_streams s) \<and>
     tl (audio_streams s') = tl (audio_streams s)"

declare drain_filter.simps [simp del]
declare try_pop.simps [simp del]
declare try_pop_depth.simps [simp del]

section \<open>Properties\<close>

subsection \<open>Conversions of machine integers\<close>

lemma size_t_of_int_nonneg: "0 \<le> sint c \<Longrightarrow> size_t_of_int c = nat (sint c)"
  unfolding size_t_of_int_def using sint_lt [of c] by simp

lemma sint_times_32:
  "0 \<le> sint (c :: cint) \<Longrightarrow> 32 * sint c < 2 ^ 31 \<Longrightarrow> sint (32 * c) = 32 * sint c"
  by (simp add: sint_word_ariths signed_take_bit_int_eq_self)

lemma unat_ucast_64_32: "unat (ucast (w :: 64 word) :: 32 word) = unat w mod 2 ^ 32"
  by (simp add: unsigned_ucast_eq take_bit_eq_mod)

lemma unat_ucast_32_64: "unat (ucast (n :: 32 word) :: 64 word) = unat n"
proof -
  have "unat n < 2 ^ 32" using unsigned_less [of n, where 'a = nat] by simp
  then show ?thesis by (simp add: unsigned_ucast_eq take_bit_nat_eq_self)
qed

lemma unat_double_64: "unat w < 2 ^ 34 \<Longrightarrow> unat (w * 2 :: 64 word) = unat w * 2"
  by (simp add: unat_word_ariths)

lemma unat_halve_64: "unat (w div 2 :: 64 word) = unat w div 2"
  by (simp add: unat_div)

subsection \<open>Results and pushes\<close>

lemma bind_r_Inl [simp]: "bind_r (Inl e) f = Inl e"
  by (simp add: bind_r_def)

lemma bind_r_Inr [simp]: "bind_r (Inr x) f = f x"
  by (simp add: bind_r_def)

lemma bind_r_eq_Inr: "bind_r m f = Inr y \<longleftrightarrow> (\<exists>x. m = Inr x \<and> f x = Inr y)"
  by (cases m) simp_all

lemma push_back_eq_Inr:
  "push_back xs q = Inr q' \<longleftrightarrow> q \<noteq> [] \<and> q' = butlast q @ [last q @ xs]"
  by (auto simp: push_back_def)

lemma video_pushed_refl: "video_pushed s s"
  by (simp add: video_pushed_def)

lemma video_pushed_trans: "video_pushed s s1 \<Longrightarrow> video_pushed s1 s2 \<Longrightarrow> video_pushed s s2"
  by (simp add: video_pushed_def)

lemma drain_filter_pushed:
  "drain_filter e frame n s = Inr s' \<Longrightarrow> video_pushed s s'"
proof (induction e frame n s arbitrary: s' rule: drain_filter.induct)
  case (1 e frame n s)
  let ?r = "filter_poll e (filter_push e (filter_obj s) frame)"
  let ?s1 = "s\<lparr>filter_obj := snd ?r\<rparr>"
  show ?case
  proof (cases "n < sint (filter_delay e (filter_obj s))")
    case False
    with "1.prems" show ?thesis
      by (simp add: drain_filter.simps [of e frame n s] video_pushed_refl)
  next
    case lt: True
    show ?thesis
    proof (cases "fst ?r")
      case None
      with lt "1.prems" have "drain_filter e frame (n + 1) ?s1 = Inr s'"
        by (simp add: drain_filter.simps [of e frame n s] Let_def)
      with "1.IH"(1) [OF lt refl refl refl None] have "video_pushed ?s1 s'" .
      then show ?thesis by (simp add: video_pushed_def)
    next
      case (Some av)
      with lt "1.prems" obtain q where
        q: "push_back [make_frame e av (fd_fps (format_desc ?s1))] (video_streams ?s1) = Inr q"
        and rec: "drain_filter e frame (n + 1) (?s1\<lparr>video_streams := q\<rparr>) = Inr s'"
        by (auto simp: drain_filter.simps [of e frame n s] Let_def split: sum.splits)
      from "1.IH"(2) [OF lt refl refl refl Some q rec]
      have "video_pushed (?s1\<lparr>video_streams := q\<rparr>) s'" .
      moreover from q have "video_streams s \<noteq> []" "q = butlast (video_streams s) @ [last (video_streams s) @ [make_frame e av (fd_fps (format_desc s))]]"
        by (simp_all add: push_back_eq_Inr)
      ultimately show ?thesis by (simp add: video_pushed_def)
    qed
  qed
qed

lemma update_display_mode_shape:
  "\<exists>dm fstr. update_display_mode e frame s =
     (if \<not> iequals e (filter_get_str e (filter_obj (s\<lparr>display_mode := dm\<rparr>))) fstr
      then bind_r (drain_filter e frame 0 (s\<lparr>display_mode := dm\<rparr>))
             (\<lambda>s2. Inr (s2\<lparr>filter_obj := filter_ctor e fstr\<rparr>))
      else Inr (s\<lparr>display_mode := dm\<rparr>))"
  unfolding update_display_mode_def Let_def by (intro exI) (rule refl)

lemma update_display_mode_pushed:
  assumes "update_display_mode e frame s = Inr s'"
  shows "video_pushed s s'"
proof -
  from update_display_mode_shape [of e frame s] obtain dm fstr where
    eq: "update_display_mode e frame s =
     (if \<not> iequals e (filter_get_str e (filter_obj (s\<lparr>display_mode := dm\<rparr>))) fstr
      then bind_r (drain_filter e frame 0 (s\<lparr>display_mode := dm\<rparr>))
             (\<lambda>s2. Inr (s2\<lparr>filter_obj := filter_ctor e fstr\<rparr>))
      else Inr (s\<lparr>display_mode := dm\<rparr>))" by blast
  show ?thesis
  proof (cases "iequals e (filter_get_str e (filter_obj (s\<lparr>display_mode := dm\<rparr>))) fstr")
    case True
    with eq assms have "s' = s\<lparr>display_mode := dm\<rparr>" by simp
    then show ?thesis by (simp add: video_pushed_def)
  next
    case False
    with eq assms have "bind_r (drain_filter e frame 0 (s\<lparr>display_mode := dm\<rparr>))
             (\<lambda>s2. Inr (s2\<lparr>filter_obj := filter_ctor e fstr\<rparr>)) = Inr s'" by simp
    then obtain s2 where d: "drain_filter e frame 0 (s\<lparr>display_mode := dm\<rparr>) = Inr s2"
      and s': "s' = s2\<lparr>filter_obj := filter_ctor e fstr\<rparr>"
      by (auto simp: bind_r_eq_Inr)
    from drain_filter_pushed [OF d] s' show ?thesis by (simp add: video_pushed_def)
  qed
qed

lemma enqueue_video_cases:
  assumes "enqueue_video e p s = Inr s'"
  shows "audio_streams s' = audio_streams s \<and> audio_cadence s' = audio_cadence s \<and>
         format_desc s' = format_desc s \<and> frame_buffer s' = frame_buffer s \<and>
         length (video_streams s) \<le> length (video_streams s') \<and>
         take (length (video_streams s) - 1) (video_streams s') = butlast (video_streams s)"
proof (cases p)
  case Nullptr
  with assms show ?thesis by (simp add: enqueue_video_def butlast_conv_take)
next
  case Flush
  with assms show ?thesis by (auto simp: enqueue_video_def butlast_conv_take)
next
  case Empty
  with assms show ?thesis
    by (auto simp: enqueue_video_def bind_r_eq_Inr push_back_eq_Inr)
next
  case (Data frame)
  with assms obtain s1 q where
    s1: "(if display_mode s = invalid then update_display_mode e frame s else Inr s) = Inr s1"
    and q: "push_each (map (\<lambda>av. make_frame e av (fd_fps (format_desc s1)))
              (fst (filter_poll_all e (filter_push e (filter_obj s1) frame))))
              (video_streams s1) = Inr q"
    and s': "s' = s1\<lparr>filter_obj := snd (filter_poll_all e (filter_push e (filter_obj s1) frame)),
                   video_streams := q\<rparr>"
    by (auto simp: enqueue_video_def bind_r_eq_Inr Let_def)
  from s1 have p1: "video_pushed s s1"
    by (auto split: if_splits intro: update_display_mode_pushed video_pushed_refl)
  from q have "q = video_streams s1 \<or>
      video_streams s1 \<noteq> [] \<and> (\<exists>xs. q = butlast (video_streams s1) @ [last (video_streams s1) @ xs])"
    by (auto simp: push_each_def push_back_eq_Inr split: if_splits)
  then have "length q = length (video_streams s1) \<and> butlast q = butlast (video_streams s1)"
    by auto
  with p1 have len: "length q = length (video_streams s)"
    and bl: "butlast q = butlast (video_streams s)"
    by (simp_all add: video_pushed_def)
  have "take (length (video_streams s) - 1) q = butlast q"
    by (simp only: butlast_conv_take len)
  with bl len p1 s' show ?thesis
    by (simp add: video_pushed_def)
qed

subsection \<open>Flush markers\<close>

text \<open>
  Claim C7. Pushing the flush sentinel on a stream appends one empty segment at the back
  of that stream and changes nothing else: the segment count grows by exactly one, every
  segment buffered before keeps its frames or samples, and no overflow is raised. For
  video this holds in every state. For audio the check of line 139 reads the cadence
  head, so the state must have one whose 32-fold is an \<^verbatim>\<open>int\<close>; an overflow error is
  excluded in every state.
\<close>

theorem flush_appends_empty_segment:
  "push_video e Flush s = Inr (s\<lparr>video_streams := video_streams s @ [[]]\<rparr>) \<and>
   (audio_bound_defined s \<longrightarrow>
      push_audio Flush s = Inr (s\<lparr>audio_streams := audio_streams s @ [[]]\<rparr>)) \<and>
   push_audio Flush s \<noteq> Inl Audio_overflow"
  by (simp add: push_video_def enqueue_video_def check_video_def bind_r_def
      push_audio_def enqueue_audio_def check_audio_def audio_bound_defined_def
      split: list.splits)

theorem flush_appends_empty_segment_witness:
  "audio_bound_defined (example_state [[blank]] [[1, 2]] simple [2, 3]) \<and>
   push_video passthrough Flush (example_state [[blank]] [[1, 2]] simple [2, 3])
     = Inr (example_state [[blank], []] [[1, 2]] simple [2, 3]) \<and>
   push_audio Flush (example_state [[blank]] [[1, 2]] simple [2, 3])
     = Inr (example_state [[blank]] [[1, 2], []] simple [2, 3])"
  using flush_appends_empty_segment
    [of passthrough "example_state [[blank]] [[1, 2]] simple [2, 3]"]
  by (simp add: audio_bound_defined_def example_state_def)

subsection \<open>Readiness\<close>

text \<open>
  Claim C2, as the code has it. In a state with at least one segment in each stream and
  a cadence head that is not negative, \<^verbatim>\<open>video_ready()\<close> is true exactly when more than
  one video segment is buffered, or the video stream has at least as many segments as
  the audio stream and its front segment holds the units of one tick (2 for
  DeinterlaceBobReinterlace, Interlace and Half, 1 otherwise); \<^verbatim>\<open>audio_ready()\<close> is true
  exactly when more than one audio segment is buffered, or the audio stream has at least
  as many segments as the video stream and its front segment holds the cadence head's
  count of samples (twice that for Duplicate).
\<close>

theorem ready_iff_segments_or_front:
  assumes "video_streams s \<noteq> []" and "audio_streams s \<noteq> []"
    and "audio_cadence s \<noteq> []" and "0 \<le> sint (hd (audio_cadence s))"
  shows "video_ready s =
           Inr (length (video_streams s) > 1 \<or>
                length (video_streams s) \<ge> length (audio_streams s) \<and>
                length (hd (video_streams s)) \<ge> spec_video_units (display_mode s)) \<and>
         audio_ready s =
           Inr (length (audio_streams s) > 1 \<or>
                length (audio_streams s) \<ge> length (video_streams s) \<and>
                length (hd (audio_streams s))
                  \<ge> spec_audio_samples (display_mode s) (nat (sint (hd (audio_cadence s)))))"
proof -
  obtain v vs where v: "video_streams s = v # vs"
    using assms(1) by (cases "video_streams s") auto
  obtain a as where a: "audio_streams s = a # as"
    using assms(2) by (cases "audio_streams s") auto
  obtain c cs where c: "audio_cadence s = c # cs"
    using assms(3) by (cases "audio_cadence s") auto
  have sz: "size_t_of_int c = nat (sint c)"
    using assms(4) c by (simp add: size_t_of_int_nonneg)
  have "video_ready2 s = Inr (length v \<ge> spec_video_units (display_mode s))"
    by (cases "display_mode s") (simp_all add: video_ready2_def v spec_video_units_def)
  moreover have "audio_ready2 s
      = Inr (length a \<ge> spec_audio_samples (display_mode s) (nat (sint c)))"
    by (cases "display_mode s") (auto simp add: audio_ready2_def a c sz spec_audio_samples_def)
  ultimately show ?thesis
    by (auto simp: video_ready_def audio_ready_def v a c)
qed

theorem ready_iff_segments_or_front_witness:
  "video_ready (example_state [[blank]] [[1, 2, 3, 4]] duplicate [2, 3]) = Inr True \<and>
   audio_ready (example_state [[blank]] [[1, 2, 3, 4]] duplicate [2, 3]) = Inr True"
  using ready_iff_segments_or_front
    [of "example_state [[blank]] [[1, 2, 3, 4]] duplicate [2, 3]"]
  by (simp add: example_state_def spec_video_units_def spec_audio_samples_def)

text \<open>
  Claim C2 as stated fails: with one video segment holding a frame and two audio
  segments, the front video segment has the unit of a Simple tick, yet \<^verbatim>\<open>video_ready()\<close>
  is false.
\<close>

theorem video_ready_counterexample:
  "video_ready (example_state [[blank]] [[], []] simple [2, 3]) = Inr False \<and>
   spec_video_units (display_mode (example_state [[blank]] [[], []] simple [2, 3]))
     \<le> length (hd (video_streams (example_state [[blank]] [[], []] simple [2, 3])))"
  by (simp add: video_ready_def example_state_def spec_video_units_def)

subsection \<open>The frame count\<close>

lemma unat_calc_nb_frames:
  "unat (calc_nb_frames e s n) =
     spec_nb_frames (filter_is_double_rate e (filter_obj s)) (display_mode s) (unat n)
       mod 2 ^ 32"
proof -
  define n0 :: "64 word" where "n0 = ucast n"
  define n1 where "n1 = (if filter_is_double_rate e (filter_obj s) then n0 * 2 else n0)"
  define n2 where "n2 = (case display_mode s of
                  deinterlace_bob_reinterlace \<Rightarrow> n1 div 2
                | interlace \<Rightarrow> n1 div 2
                | half \<Rightarrow> n1 div 2
                | duplicate \<Rightarrow> n1 * 2
                | _ \<Rightarrow> n1)"
  have n: "unat n < 2 ^ 32" using unsigned_less [of n, where 'a = nat] by simp
  have u0: "unat n0 = unat n" by (simp add: n0_def unat_ucast_32_64)
  have u1: "unat n1 = (if filter_is_double_rate e (filter_obj s) then unat n * 2 else unat n)"
    using n u0 by (simp add: n1_def unat_double_64)
  have b1: "unat n1 < 2 ^ 34" using n u1 by (simp split: if_splits)
  have u2: "unat n2
      = spec_nb_frames (filter_is_double_rate e (filter_obj s)) (display_mode s) (unat n)"
    unfolding n2_def spec_nb_frames_def Let_def
    using b1 by (cases "display_mode s")
      (simp_all only: display_mode.case unat_halve_64 unat_double_64 u1
        display_mode.distinct if_True if_False simp_thms)
  have "calc_nb_frames e s n = ucast n2"
    by (simp only: calc_nb_frames_def n2_def n1_def n0_def Let_def)
  then show ?thesis by (simp only: unat_ucast_64_32 u2)
qed

text \<open>
  Claim C4, as the code has it. \<^verbatim>\<open>calc_nb_frames\<close> is the input, doubled when the filter
  is double-rate, then halved (rounding down) for Interlace, DeinterlaceBobReinterlace
  and Half or doubled for Duplicate, and at the end reduced modulo \<open>2 ^ 32\<close> by the cast
  to \<^verbatim>\<open>uint32_t\<close>. It is monotonic on the inputs whose projected count is below \<open>2 ^ 32\<close>:
  if \<open>n \<le> m\<close> and the count projected for \<open>m\<close> fits, the result for \<open>n\<close> is at most the
  result for \<open>m\<close>.
\<close>

theorem calc_nb_frames_projection:
  "unat (calc_nb_frames e s n) =
     spec_nb_frames (filter_is_double_rate e (filter_obj s)) (display_mode s) (unat n)
       mod 2 ^ 32 \<and>
   (n \<le> m \<and>
    spec_nb_frames (filter_is_double_rate e (filter_obj s)) (display_mode s) (unat m) < 2 ^ 32
    \<longrightarrow> calc_nb_frames e s n \<le> calc_nb_frames e s m)"
proof (intro conjI impI)
  show "unat (calc_nb_frames e s n) =
     spec_nb_frames (filter_is_double_rate e (filter_obj s)) (display_mode s) (unat n)
       mod 2 ^ 32"
    by (rule unat_calc_nb_frames)
next
  let ?f = "spec_nb_frames (filter_is_double_rate e (filter_obj s)) (display_mode s)"
  assume a: "n \<le> m \<and> ?f (unat m) < 2 ^ 32"
  then have nm: "unat n \<le> unat m" by (simp add: word_le_nat_alt)
  have mono: "?f (unat n) \<le> ?f (unat m)"
    using nm by (auto simp: spec_nb_frames_def Let_def intro: div_le_mono)
  with a have "?f (unat n) < 2 ^ 32" by simp
  with a mono show "calc_nb_frames e s n \<le> calc_nb_frames e s m"
    by (simp add: word_le_nat_alt unat_calc_nb_frames)
qed

theorem calc_nb_frames_projection_witness:
  "unat (calc_nb_frames passthrough (example_state [[]] [[]] half [2, 3]) 7) = 3 \<and>
   calc_nb_frames passthrough (example_state [[]] [[]] half [2, 3]) 7
     \<le> calc_nb_frames passthrough (example_state [[]] [[]] half [2, 3]) 10"
  using calc_nb_frames_projection
    [of passthrough "example_state [[]] [[]] half [2, 3]" 7 10]
  by (simp add: example_state_def passthrough_def spec_nb_frames_def)

text \<open>
  Claim C4 as stated fails on the full \<^verbatim>\<open>uint32_t\<close> range: in Duplicate mode the input
  \<open>2 ^ 31\<close> gives 0, less than the 2 that the input 1 gives.
\<close>

theorem calc_nb_frames_counterexample:
  "(1 :: 32 word) \<le> 2147483648 \<and>
   calc_nb_frames passthrough (example_state [[]] [[]] duplicate [2, 3]) 1 = 2 \<and>
   calc_nb_frames passthrough (example_state [[]] [[]] duplicate [2, 3]) 2147483648 = 0"
  by (simp add: calc_nb_frames_def example_state_def passthrough_def)

subsection \<open>Overflow\<close>

lemma check_video_eq_Inr:
  "check_video s = Inr s' \<longleftrightarrow> s' = s \<and> video_streams s \<noteq> [] \<and> length (last (video_streams s)) \<le> 32"
  by (auto simp: check_video_def)

lemma check_audio_eq_Inr:
  "check_audio s = Inr s' \<Longrightarrow> s' = s"
  by (auto simp: check_audio_def split: list.splits if_splits)

lemma enqueue_audio_cases:
  assumes "enqueue_audio p s = Inr s'"
  shows "video_streams s' = video_streams s \<and> audio_cadence s' = audio_cadence s \<and>
         format_desc s' = format_desc s \<and> frame_buffer s' = frame_buffer s \<and>
         display_mode s' = display_mode s \<and>
         length (audio_streams s) \<le> length (audio_streams s') \<and>
         take (length (audio_streams s) - 1) (audio_streams s') = butlast (audio_streams s)"
  using assms
  by (cases p)
     (auto simp: enqueue_audio_def bind_r_eq_Inr push_back_eq_Inr butlast_conv_take
           split: list.splits if_splits)

text \<open>
  Claim C1, as the code has it. The overflow test reads the back segment, the one a push
  appends to. For a pointer that is not null and a state with at least one segment,
  once the buffers are updated \<^verbatim>\<open>push_video\<close> fails with the overflow error exactly when
  the back video segment holds more than 32 frames, and succeeds exactly when it holds
  at most 32; \<^verbatim>\<open>push_audio\<close> fails with the overflow error exactly when the back audio
  segment holds more than 32 times the cadence head's count of samples, and succeeds
  exactly when it holds at most that many (for a cadence head that is not negative and
  whose 32-fold is an \<^verbatim>\<open>int\<close>).
\<close>

theorem overflow_iff_back_segment_exceeds:
  "(video_frame \<noteq> Nullptr \<and> video_streams s \<noteq> [] \<and> enqueue_video e video_frame s = Inr sv \<longrightarrow>
      (push_video e video_frame s = Inl Video_overflow
         \<longleftrightarrow> 32 < length (last (video_streams sv))) \<and>
      (push_video e video_frame s = Inr sv
         \<longleftrightarrow> length (last (video_streams sv)) \<le> 32)) \<and>
   (audio \<noteq> Nullptr \<and> audio_streams s \<noteq> [] \<and> enqueue_audio audio s = Inr sa \<and>
    audio_cadence s = c # cs \<and> 0 \<le> sint c \<and> 32 * sint c < 2 ^ 31 \<longrightarrow>
      (push_audio audio s = Inl Audio_overflow
         \<longleftrightarrow> 32 * nat (sint c) < length (last (audio_streams sa))) \<and>
      (push_audio audio s = Inr sa
         \<longleftrightarrow> length (last (audio_streams sa)) \<le> 32 * nat (sint c)))"
proof (intro conjI impI)
  assume a: "video_frame \<noteq> Nullptr \<and> video_streams s \<noteq> [] \<and> enqueue_video e video_frame s = Inr sv"
  with enqueue_video_cases [of e video_frame s sv] have ne: "video_streams sv \<noteq> []" by auto
  from a have p: "push_video e video_frame s = check_video sv" by (simp add: push_video_def)
  show "push_video e video_frame s = Inl Video_overflow \<longleftrightarrow> 32 < length (last (video_streams sv))"
    using ne by (simp add: p check_video_def)
  show "push_video e video_frame s = Inr sv \<longleftrightarrow> length (last (video_streams sv)) \<le> 32"
    using ne by (simp add: p check_video_def)
next
  assume a: "audio \<noteq> Nullptr \<and> audio_streams s \<noteq> [] \<and> enqueue_audio audio s = Inr sa \<and>
    audio_cadence s = c # cs \<and> 0 \<le> sint c \<and> 32 * sint c < 2 ^ 31"
  with enqueue_audio_cases [of audio s sa] have ne: "audio_streams sa \<noteq> []"
    and cad: "audio_cadence sa = c # cs" by auto
  from a have p: "push_audio audio s = check_audio sa" by (simp add: push_audio_def)
  from a have "sint (32 * c) = 32 * sint c" by (simp add: sint_times_32)
  with a have b: "size_t_of_int (32 * c) = 32 * nat (sint c)"
    by (simp add: size_t_of_int_nonneg nat_mult_distrib)
  show "push_audio audio s = Inl Audio_overflow \<longleftrightarrow> 32 * nat (sint c) < length (last (audio_streams sa))"
    using ne a by (simp add: p check_audio_def cad b)
  show "push_audio audio s = Inr sa \<longleftrightarrow> length (last (audio_streams sa)) \<le> 32 * nat (sint c)"
    using ne a by (auto simp add: p check_audio_def cad b)
qed

theorem overflow_iff_back_segment_exceeds_witness:
  "push_video passthrough Empty (example_state [replicate 31 blank] [[]] simple [2, 3])
     = Inr (example_state [replicate 31 blank @ [blank]] [[]] simple [2, 3]) \<and>
   push_audio (Data [7]) (example_state [[]] [replicate 64 0] simple [2, 3])
     = Inl Audio_overflow"
  using overflow_iff_back_segment_exceeds
    [where video_frame = Empty and e = passthrough
       and s = "example_state [replicate 31 blank] [[]] simple [2, 3]"
       and sv = "example_state [replicate 31 blank @ [blank]] [[]] simple [2, 3]"]
    overflow_iff_back_segment_exceeds
    [where audio = "Data [7]"
       and s = "example_state [[]] [replicate 64 0] simple [2, 3]"
       and sa = "example_state [[]] [replicate 64 0 @ [7]] simple [2, 3]"
       and c = 2 and cs = "[3]"]
  by (simp add: example_state_def enqueue_video_def enqueue_audio_def push_back_def
      passthrough_def blank_def)

text \<open>The other side of each boundary: the 33rd frame fails, the sample that fills the
  segment to 32 times the cadence head succeeds.\<close>

lemma overflow_boundaries:
  "push_video passthrough Empty (example_state [replicate 32 blank] [[]] simple [2, 3])
     = Inl Video_overflow \<and>
   push_audio (Data [7]) (example_state [[]] [replicate 63 0] simple [2, 3])
     = Inr (example_state [[]] [replicate 63 0 @ [7]] simple [2, 3])"
  by (simp add: example_state_def push_video_def push_audio_def enqueue_video_def enqueue_audio_def push_back_def
      passthrough_def blank_def check_video_def check_audio_def size_t_of_int_def)

text \<open>
  Claim C1 as stated, with the front segment, fails: with an empty front segment and a
  back segment of 32 frames the push of one more frame raises the overflow error, and
  the front segment holds no frame before or after.
\<close>

theorem overflow_front_segment_counterexample:
  "push_video passthrough Empty (example_state [[], replicate 32 blank] [[]] simple [2, 3])
     = Inl Video_overflow \<and>
   enqueue_video passthrough Empty (example_state [[], replicate 32 blank] [[]] simple [2, 3])
     = Inr (example_state [[], replicate 32 blank @ [blank]] [[]] simple [2, 3]) \<and>
   \<not> 32 < length (hd (video_streams
                         (example_state [[], replicate 32 blank @ [blank]] [[]] simple [2, 3])))"
  by (simp add: example_state_def push_video_def enqueue_video_def push_back_def
      passthrough_def blank_def check_video_def)

subsection \<open>The pop routine: effect and depth\<close>

lemma pop_video_eq_Inr:
  "pop_video s = Inr (f, s') \<longleftrightarrow>
     (\<exists>fs vs. video_streams s = (f # fs) # vs \<and> s' = s\<lparr>video_streams := fs # vs\<rparr>)"
  by (auto simp: pop_video_def split: list.splits)

lemma pop_audio_eq_Inr:
  "pop_audio s = Inr (a, s') \<longleftrightarrow>
     (\<exists>b as c cs. audio_streams s = b # as \<and> audio_cadence s = c # cs \<and>
        size_t_of_int c \<le> length b \<and> 0 \<le> sint c \<and> a = take (nat (sint c)) b \<and>
        s' = s\<lparr>audio_streams := drop (nat (sint c)) b # as,
               audio_cadence := rotate1 (c # cs)\<rparr>)"
  by (auto simp: pop_audio_def caspar_verify_def split: list.splits)

lemma pop_video_popped: "pop_video s = Inr (f, s') \<Longrightarrow> fronts_popped s s' \<and> audio_cadence s' = audio_cadence s \<and> frame_buffer s' = frame_buffer s"
  by (auto simp: pop_video_eq_Inr fronts_popped_def)

lemma pop_audio_popped: "pop_audio s = Inr (a, s') \<Longrightarrow> fronts_popped s s' \<and> audio_cadence s' = rotate1 (audio_cadence s) \<and> frame_buffer s' = frame_buffer s"
  by (auto simp: pop_audio_eq_Inr fronts_popped_def)

lemma fronts_popped_trans: "fronts_popped s s1 \<Longrightarrow> fronts_popped s1 s2 \<Longrightarrow> fronts_popped s s2"
  by (simp add: fronts_popped_def)

lemma fronts_popped_push_frame: "fronts_popped s s1 \<Longrightarrow> fronts_popped s (push_frame d s1)"
  by (simp add: fronts_popped_def push_frame_def)

lemma mux_frame_effect:
  assumes "mux_frame s = Inr s'"
  shows "fronts_popped s s' \<and> frame_buffer s' \<noteq> [] \<and>
         (audio_cadence s' = rotate1 (audio_cadence s) \<or>
          audio_cadence s' = rotate1 (rotate1 (audio_cadence s)))"
proof -
  from assms obtain f s1 a s2 where
    v: "pop_video s = Inr (f, s1)" and a: "pop_audio s1 = Inr (a, s2)"
    by (auto simp: mux_frame_def bind_r_eq_Inr)
  from pop_video_popped [OF v] pop_audio_popped [OF a]
  have p2: "fronts_popped s s2" and c2: "audio_cadence s2 = rotate1 (audio_cadence s)"
    by (auto intro: fronts_popped_trans)
  have dm: "display_mode s2 = display_mode s" using p2 by (simp add: fronts_popped_def)
  from assms v a have rest: "(case display_mode s2 of
         simple \<Rightarrow> Inr (push_frame (Draw (f\<lparr>audio_data := a\<rparr>)) s2)
       | deinterlace_bob \<Rightarrow> Inr (push_frame (Draw (f\<lparr>audio_data := a\<rparr>)) s2)
       | deinterlace \<Rightarrow> Inr (push_frame (Draw (f\<lparr>audio_data := a\<rparr>)) s2)
       | interlace \<Rightarrow>
           bind_r (pop_video s2) (\<lambda>(frame2, s3).
             Inr (push_frame (Interlaced (Draw (f\<lparr>audio_data := a\<rparr>)) (Draw frame2)
                                (fd_field_mode (format_desc s3))) s3))
       | deinterlace_bob_reinterlace \<Rightarrow>
           bind_r (pop_video s2) (\<lambda>(frame2, s3).
             Inr (push_frame (Interlaced (Draw (f\<lparr>audio_data := a\<rparr>)) (Draw frame2)
                                (fd_field_mode (format_desc s3))) s3))
       | duplicate \<Rightarrow>
           bind_r (pop_audio s2) (\<lambda>(a2, s3).
             let d = Draw ((f\<lparr>audio_data := a\<rparr>)\<lparr>audio_data := audio_data (f\<lparr>audio_data := a\<rparr>) @ a2\<rparr>)
             in Inr (push_frame d (push_frame d s3)))
       | half \<Rightarrow>
           bind_r (pop_video s2) (\<lambda>(thrown_away, s3).
             Inr (push_frame (Draw (f\<lparr>audio_data := a\<rparr>)) s3))
       | invalid \<Rightarrow> Inl Invalid_operation) = Inr s'"
    by (simp add: mux_frame_def Let_def)
  show ?thesis
  proof (cases "display_mode s2")
    case simple
    with rest p2 c2 show ?thesis by (auto simp: push_frame_def fronts_popped_def)
  next
    case duplicate
    with rest obtain a2 s3 where "pop_audio s2 = Inr (a2, s3)"
      and "s' = push_frame (Draw (f\<lparr>audio_data := a @ a2\<rparr>)) (push_frame (Draw (f\<lparr>audio_data := a @ a2\<rparr>)) s3)"
      by (auto simp: bind_r_eq_Inr Let_def)
    with pop_audio_popped [of s2 a2 s3] p2 c2 show ?thesis
      by (auto simp: push_frame_def fronts_popped_def)
  next
    case half
    with rest obtain f2 s3 where "pop_video s2 = Inr (f2, s3)"
      and "s' = push_frame (Draw (f\<lparr>audio_data := a\<rparr>)) s3"
      by (auto simp: bind_r_eq_Inr)
    with pop_video_popped [of s2 f2 s3] p2 c2 show ?thesis
      by (auto simp: push_frame_def fronts_popped_def)
  next
    case interlace
    with rest obtain f2 s3 where "pop_video s2 = Inr (f2, s3)"
      and "s' = push_frame (Interlaced (Draw (f\<lparr>audio_data := a\<rparr>)) (Draw f2)
                                (fd_field_mode (format_desc s3))) s3"
      by (auto simp: bind_r_eq_Inr)
    with pop_video_popped [of s2 f2 s3] p2 c2 show ?thesis
      by (auto simp: push_frame_def fronts_popped_def)
  next
    case deinterlace_bob
    with rest p2 c2 show ?thesis by (auto simp: push_frame_def fronts_popped_def)
  next
    case deinterlace_bob_reinterlace
    with rest obtain f2 s3 where "pop_video s2 = Inr (f2, s3)"
      and "s' = push_frame (Interlaced (Draw (f\<lparr>audio_data := a\<rparr>)) (Draw f2)
                                (fd_field_mode (format_desc s3))) s3"
      by (auto simp: bind_r_eq_Inr)
    with pop_video_popped [of s2 f2 s3] p2 c2 show ?thesis
      by (auto simp: push_frame_def fronts_popped_def)
  next
    case deinterlace
    with rest p2 c2 show ?thesis by (auto simp: push_frame_def fronts_popped_def)
  next
    case invalid
    with rest show ?thesis by simp
  qed
qed

lemma truncate_segments_cases:
  "truncate_segments s = Inr s' \<Longrightarrow>
     s' = s \<or>
     1 < length (video_streams s) \<and> 1 < length (audio_streams s) \<and>
     s' = s\<lparr>video_streams := tl (video_streams s), audio_streams := tl (audio_streams s)\<rparr>"
  by (auto simp: truncate_segments_def bind_r_eq_Inr split: if_splits)

lemma try_pop_step_Return_false:
  "try_pop_step s = Inr (Return_false s1) \<Longrightarrow> truncate_segments s = Inr s1"
  by (auto simp: try_pop_step_def assemble_def bind_r_eq_Inr split: if_splits)

lemma try_pop_step_Retry:
  "try_pop_step s = Inr (Retry s2) \<Longrightarrow>
     \<exists>s1. truncate_segments s = Inr s1 \<and> not_ready s1 = Inr False \<and> mux_frame s1 = Inr s2"
  by (auto simp: try_pop_step_def assemble_def bind_r_eq_Inr split: if_splits)

lemma retry_nonempty: "try_pop_step s = Inr (Retry s2) \<Longrightarrow> frame_buffer s2 \<noteq> []"
  by (auto dest!: try_pop_step_Retry mux_frame_effect)

lemma try_pop_two_levels:
  "try_pop s =
     (if frame_buffer s \<noteq> []
      then Inr (Some (hd (frame_buffer s)), s\<lparr>frame_buffer := tl (frame_buffer s)\<rparr>)
      else case try_pop_step s of
             Inl err \<Rightarrow> Inl err
           | Inr (Return_false s1) \<Rightarrow> Inr (None, s1)
           | Inr (Retry s2) \<Rightarrow>
               Inr (Some (hd (frame_buffer s2)), s2\<lparr>frame_buffer := tl (frame_buffer s2)\<rparr>))"
proof (cases "try_pop_step s")
  case (Inl err)
  then show ?thesis by (simp add: try_pop.simps [of s])
next
  case (Inr x)
  show ?thesis
  proof (cases x)
    case (Return_false s1)
    with Inr show ?thesis by (simp add: try_pop.simps [of s])
  next
    case (Retry s2)
    with Inr have "frame_buffer s2 \<noteq> []" by (simp add: retry_nonempty)
    then have "try_pop s2 = Inr (Some (hd (frame_buffer s2)), s2\<lparr>frame_buffer := tl (frame_buffer s2)\<rparr>)"
      by (simp add: try_pop.simps [of s2])
    with Inr Retry show ?thesis by (simp add: try_pop.simps [of s])
  qed
qed

text \<open>
  Claim C10. \<^verbatim>\<open>try_pop\<close> always terminates (the function above is total, by its
  termination proof), and one call from outside stacks up at most two activations:
  whenever the body reaches the call of itself, the branch that ran has pushed into the
  output buffer, so the inner call finds the buffer non-empty, returns its front frame
  and does not call again.
\<close>

theorem try_pop_depth_at_most_2:
  "try_pop_depth s \<le> 2 \<and>
   (try_pop_step s = Inr (Retry s2) \<longrightarrow>
      frame_buffer s2 \<noteq> [] \<and> try_pop_depth s2 = 1 \<and>
      try_pop s2 = Inr (Some (hd (frame_buffer s2)), s2\<lparr>frame_buffer := tl (frame_buffer s2)\<rparr>))"
proof -
  have r: "frame_buffer s2 \<noteq> [] \<and> try_pop_depth s2 = 1 \<and>
      try_pop s2 = Inr (Some (hd (frame_buffer s2)), s2\<lparr>frame_buffer := tl (frame_buffer s2)\<rparr>)"
    if "try_pop_step s = Inr (Retry s2)" for s :: "'a impl" and s2
  proof -
    from that have "frame_buffer s2 \<noteq> []" by (rule retry_nonempty)
    then show ?thesis by (simp add: try_pop_depth.simps [of s2] try_pop.simps [of s2])
  qed
  have "try_pop_depth s \<le> 2"
  proof (cases "try_pop_step s")
    case (Inl err)
    then show ?thesis by (simp add: try_pop_depth.simps [of s])
  next
    case (Inr x)
    show ?thesis
    proof (cases x)
      case (Return_false s1)
      with Inr show ?thesis by (simp add: try_pop_depth.simps [of s])
    next
      case (Retry s3)
      with Inr r [of s s3] show ?thesis by (simp add: try_pop_depth.simps [of s])
    qed
  qed
  with r show ?thesis by blast
qed


theorem try_pop_depth_at_most_2_witness:
  "try_pop_step (example_state [[blank, blank]] [[1, 2, 3, 4, 5]] simple [2, 3])
     = Inr (Retry ((example_state [[blank]] [[3, 4, 5]] simple [2, 3])
                     \<lparr>audio_cadence := [3, 2],
                      frame_buffer := [Draw (blank\<lparr>audio_data := [1, 2]\<rparr>)]\<rparr>)) \<and>
   try_pop_depth ((example_state [[blank]] [[3, 4, 5]] simple [2, 3])
                     \<lparr>audio_cadence := [3, 2],
                      frame_buffer := [Draw (blank\<lparr>audio_data := [1, 2]\<rparr>)]\<rparr>) = 1 \<and>
   try_pop_depth (example_state [[blank, blank]] [[1, 2, 3, 4, 5]] simple [2, 3]) \<le> 2"
proof -
  have step: "try_pop_step (example_state [[blank, blank]] [[1, 2, 3, 4, 5]] simple [2, 3])
     = Inr (Retry ((example_state [[blank]] [[3, 4, 5]] simple [2, 3])
                     \<lparr>audio_cadence := [3, 2],
                      frame_buffer := [Draw (blank\<lparr>audio_data := [1, 2]\<rparr>)]\<rparr>))"
    by (simp add: try_pop_step_def assemble_def truncate_segments_def not_ready_def video_ready2_def
        audio_ready2_def mux_frame_def pop_video_def pop_audio_def caspar_verify_def push_frame_def
        example_state_def size_t_of_int_def)
  from try_pop_depth_at_most_2
    [of "example_state [[blank, blank]] [[1, 2, 3, 4, 5]] simple [2, 3]"
        "(example_state [[blank]] [[3, 4, 5]] simple [2, 3])
           \<lparr>audio_cadence := [3, 2],
            frame_buffer := [Draw (blank\<lparr>audio_data := [1, 2]\<rparr>)]\<rparr>"] step
  show ?thesis by simp
qed

subsection \<open>Effects of the public operations\<close>

lemma try_pop_effect:
  assumes "try_pop s = Inr (r, s')"
  shows "format_desc s' = format_desc s \<and>
         (audio_cadence s' = audio_cadence s \<or>
          audio_cadence s' = rotate1 (audio_cadence s) \<or>
          audio_cadence s' = rotate1 (rotate1 (audio_cadence s))) \<and>
         (length (video_streams s') = length (video_streams s) \<and>
          tl (video_streams s') = tl (video_streams s) \<and>
          length (audio_streams s') = length (audio_streams s) \<and>
          tl (audio_streams s') = tl (audio_streams s)
          \<or>
          1 < length (video_streams s) \<and> 1 < length (audio_streams s) \<and>
          length (video_streams s') = length (video_streams s) - 1 \<and>
          tl (video_streams s') = tl (tl (video_streams s)) \<and>
          length (audio_streams s') = length (audio_streams s) - 1 \<and>
          tl (audio_streams s') = tl (tl (audio_streams s)))"
proof (cases "frame_buffer s \<noteq> []")
  case True
  with assms have "s' = s\<lparr>frame_buffer := tl (frame_buffer s)\<rparr>"
    by (simp add: try_pop_two_levels [of s])
  then show ?thesis by simp
next
  case False
  then have tp: "try_pop s = (case try_pop_step s of
             Inl err \<Rightarrow> Inl err
           | Inr (Return_false s1) \<Rightarrow> Inr (None, s1)
           | Inr (Retry s2) \<Rightarrow>
               Inr (Some (hd (frame_buffer s2)), s2\<lparr>frame_buffer := tl (frame_buffer s2)\<rparr>))"
    by (simp add: try_pop_two_levels [of s])
  show ?thesis
  proof (cases "try_pop_step s")
    case (Inl err)
    with tp assms show ?thesis by simp
  next
    case (Inr x)
    show ?thesis
    proof (cases x)
      case (Return_false s1)
      with Inr tp assms have "s' = s1" by simp
      with Inr Return_false have "truncate_segments s = Inr s'"
        by (simp add: try_pop_step_Return_false)
      from truncate_segments_cases [OF this] show ?thesis by auto
    next
      case (Retry s2)
      with Inr tp assms have s': "s' = s2\<lparr>frame_buffer := tl (frame_buffer s2)\<rparr>" by simp
      from Inr Retry obtain s1 where t: "truncate_segments s = Inr s1"
        and m: "mux_frame s1 = Inr s2"
        using try_pop_step_Retry [of s s2] by auto
      from mux_frame_effect [OF m] have p: "fronts_popped s1 s2"
        and c: "audio_cadence s2 = rotate1 (audio_cadence s1) \<or>
          audio_cadence s2 = rotate1 (rotate1 (audio_cadence s1))" by simp_all
      from truncate_segments_cases [OF t] show ?thesis
      proof
        assume "s1 = s"
        with p c s' show ?thesis by (auto simp: fronts_popped_def)
      next
        assume "1 < length (video_streams s) \<and> 1 < length (audio_streams s) \<and>
          s1 = s\<lparr>video_streams := tl (video_streams s), audio_streams := tl (audio_streams s)\<rparr>"
        with p c s' show ?thesis by (auto simp: fronts_popped_def)
      qed
    qed
  qed
qed

lemma push_video_effect:
  assumes "push_video e p s = Inr s'"
  shows "audio_streams s' = audio_streams s \<and> audio_cadence s' = audio_cadence s \<and>
         format_desc s' = format_desc s \<and> frame_buffer s' = frame_buffer s \<and>
         length (video_streams s) \<le> length (video_streams s') \<and>
         take (length (video_streams s) - 1) (video_streams s') = butlast (video_streams s)"
proof (cases "p = Nullptr")
  case True
  with assms show ?thesis by (simp add: push_video_def butlast_conv_take)
next
  case False
  with assms obtain s1 where "enqueue_video e p s = Inr s1" and "check_video s1 = Inr s'"
    by (auto simp: push_video_def bind_r_eq_Inr)
  then show ?thesis using enqueue_video_cases [of e p s s1] by (simp add: check_video_eq_Inr)
qed

lemma push_audio_effect:
  assumes "push_audio p s = Inr s'"
  shows "video_streams s' = video_streams s \<and> audio_cadence s' = audio_cadence s \<and>
         format_desc s' = format_desc s \<and> frame_buffer s' = frame_buffer s \<and>
         display_mode s' = display_mode s \<and>
         length (audio_streams s) \<le> length (audio_streams s') \<and>
         take (length (audio_streams s) - 1) (audio_streams s') = butlast (audio_streams s)"
proof (cases "p = Nullptr")
  case True
  with assms show ?thesis by (simp add: push_audio_def butlast_conv_take)
next
  case False
  with assms obtain s1 where "enqueue_audio p s = Inr s1" and "check_audio s1 = Inr s'"
    by (auto simp: push_audio_def bind_r_eq_Inr)
  then show ?thesis using enqueue_audio_cases [of p s s1] check_audio_eq_Inr [of s1 s'] by simp
qed

lemma apply_op_segments:
  assumes "apply_op e operation s = Inr s'"
    and "video_streams s \<noteq> [] \<and> audio_streams s \<noteq> []"
  shows "video_streams s' \<noteq> [] \<and> audio_streams s' \<noteq> []"
proof (cases operation)
  case (Push_video p)
  with assms push_video_effect [of e p s s'] show ?thesis by (auto simp: apply_op_def)
next
  case (Push_audio p)
  with assms push_audio_effect [of p s s'] show ?thesis by (auto simp: apply_op_def)
next
  case Try_pop
  with assms obtain r where "try_pop s = Inr (r, s')"
    by (auto simp: apply_op_def bind_r_eq_Inr)
  from try_pop_effect [OF this] assms(2) show ?thesis
    by (cases "video_streams s"; cases "audio_streams s"; cases "video_streams s'"; cases "audio_streams s'") auto
qed

lemma run_segments:
  "run e ops s = Inr s' \<Longrightarrow> video_streams s \<noteq> [] \<and> audio_streams s \<noteq> [] \<Longrightarrow>
   video_streams s' \<noteq> [] \<and> audio_streams s' \<noteq> []"
proof (induction ops arbitrary: s)
  case Nil
  then show ?case by simp
next
  case (Cons operation rest)
  from Cons.prems(1) obtain s1 where a: "apply_op e operation s = Inr s1"
    and r: "run e rest s1 = Inr s'" by (auto simp: bind_r_eq_Inr)
  from apply_op_segments [OF a Cons.prems(2)] Cons.IH [OF r] show ?case by simp
qed

lemma apply_op_cadence:
  assumes "apply_op e operation s = Inr s'"
  shows "format_desc s' = format_desc s \<and>
         (audio_cadence s' = audio_cadence s \<or>
          audio_cadence s' = rotate1 (audio_cadence s) \<or>
          audio_cadence s' = rotate1 (rotate1 (audio_cadence s)))"
proof (cases operation)
  case (Push_video p)
  with assms push_video_effect [of e p s s'] show ?thesis by (auto simp: apply_op_def)
next
  case (Push_audio p)
  with assms push_audio_effect [of p s s'] show ?thesis by (auto simp: apply_op_def)
next
  case Try_pop
  with assms obtain r where "try_pop s = Inr (r, s')"
    by (auto simp: apply_op_def bind_r_eq_Inr)
  from try_pop_effect [OF this] show ?thesis by simp
qed

lemma rotate1_rotate: "rotate1 (rotate n xs) = rotate (Suc n) xs"
  by simp

lemma run_cadence:
  "run e ops s = Inr s' \<Longrightarrow> \<exists>n. audio_cadence s = rotate n (fd_audio_cadence (format_desc s)) \<Longrightarrow>
   format_desc s' = format_desc s \<and> (\<exists>n. audio_cadence s' = rotate n (fd_audio_cadence (format_desc s')))"
proof (induction ops arbitrary: s)
  case Nil
  then show ?case by simp
next
  case (Cons operation rest)
  from Cons.prems(1) obtain s1 where a: "apply_op e operation s = Inr s1"
    and r: "run e rest s1 = Inr s'" by (auto simp: bind_r_eq_Inr)
  from Cons.prems(2) obtain n where n: "audio_cadence s = rotate n (fd_audio_cadence (format_desc s))" ..
  from apply_op_cadence [OF a] have fd: "format_desc s1 = format_desc s"
    and c: "audio_cadence s1 = audio_cadence s \<or>
          audio_cadence s1 = rotate1 (audio_cadence s) \<or>
          audio_cadence s1 = rotate1 (rotate1 (audio_cadence s))" by simp_all
  from c n have "audio_cadence s1 = rotate n (fd_audio_cadence (format_desc s)) \<or>
     audio_cadence s1 = rotate (Suc n) (fd_audio_cadence (format_desc s)) \<or>
     audio_cadence s1 = rotate (Suc (Suc n)) (fd_audio_cadence (format_desc s))" by auto
  then have "\<exists>m. audio_cadence s1 = rotate m (fd_audio_cadence (format_desc s1))"
    unfolding fd by blast
  from Cons.IH [OF r this] fd show ?case by auto
qed

lemma impl_new_cadence:
  assumes "impl_new e fps fd fstr = Inr s"
  shows "format_desc s = fd \<and> fd_audio_cadence fd \<noteq> [] \<and>
     audio_cadence s = last (fd_audio_cadence fd) # butlast (fd_audio_cadence fd) \<and>
     audio_cadence s = rotate (length (fd_audio_cadence fd) - 1) (fd_audio_cadence fd) \<and>
     video_streams s = [[]] \<and> audio_streams s = [[]]"
proof -
  from assms have ne: "fd_audio_cadence fd \<noteq> []" by (auto simp: impl_new_def split: if_splits)
  then obtain xs x where xs: "fd_audio_cadence fd = xs @ [x]"
    by (cases "fd_audio_cadence fd" rule: rev_cases) auto
  have "rotate (length xs) (xs @ [x]) = x # xs"
    by (simp add: rotate_append)
  with xs ne assms show ?thesis by (auto simp: impl_new_def)
qed

subsection \<open>Segments\<close>

text \<open>
  Claim C8. Each stream buffer always holds at least one segment: the constructor leaves
  one empty segment in each, and in every state a client reaches from there through
  \<^verbatim>\<open>push_video\<close>, \<^verbatim>\<open>push_audio\<close> and \<^verbatim>\<open>try_pop\<close> both buffers are non-empty. A push
  removes no segment: the segments before the last stay in place and the other stream is
  untouched. \<^verbatim>\<open>try_pop\<close> either keeps the number of segments and every segment behind
  the front one, or removes exactly the front segment of both streams, and the latter
  only when both streams held more than one segment.
\<close>

theorem segments_never_run_out:
  "(impl_new e fps fd fstr = Inr s0 \<longrightarrow> video_streams s0 \<noteq> [] \<and> audio_streams s0 \<noteq> []) \<and>
   (impl_new e fps fd fstr = Inr s0 \<and> run e ops s0 = Inr s \<longrightarrow>
      video_streams s \<noteq> [] \<and> audio_streams s \<noteq> []) \<and>
   (video_streams s \<noteq> [] \<and> audio_streams s \<noteq> [] \<and> push_video e p s = Inr s1 \<longrightarrow>
      video_streams s1 \<noteq> [] \<and> audio_streams s1 = audio_streams s \<and>
      length (video_streams s) \<le> length (video_streams s1) \<and>
      take (length (video_streams s) - 1) (video_streams s1) = butlast (video_streams s)) \<and>
   (video_streams s \<noteq> [] \<and> audio_streams s \<noteq> [] \<and> push_audio q s = Inr s2 \<longrightarrow>
      audio_streams s2 \<noteq> [] \<and> video_streams s2 = video_streams s \<and>
      length (audio_streams s) \<le> length (audio_streams s2) \<and>
      take (length (audio_streams s) - 1) (audio_streams s2) = butlast (audio_streams s)) \<and>
   (video_streams s \<noteq> [] \<and> audio_streams s \<noteq> [] \<and> try_pop s = Inr (r, s3) \<longrightarrow>
      video_streams s3 \<noteq> [] \<and> audio_streams s3 \<noteq> [] \<and>
      (length (video_streams s3) = length (video_streams s) \<and>
       tl (video_streams s3) = tl (video_streams s) \<and>
       length (audio_streams s3) = length (audio_streams s) \<and>
       tl (audio_streams s3) = tl (audio_streams s)
       \<or>
       1 < length (video_streams s) \<and> 1 < length (audio_streams s) \<and>
       length (video_streams s3) = length (video_streams s) - 1 \<and>
       tl (video_streams s3) = tl (tl (video_streams s)) \<and>
       length (audio_streams s3) = length (audio_streams s) - 1 \<and>
       tl (audio_streams s3) = tl (tl (audio_streams s))))"
proof (intro conjI impI)
  assume "impl_new e fps fd fstr = Inr s0"
  from impl_new_cadence [OF this]
  show "video_streams s0 \<noteq> []" and "audio_streams s0 \<noteq> []" by simp_all
next
  assume a: "impl_new e fps fd fstr = Inr s0 \<and> run e ops s0 = Inr s"
  then have "video_streams s0 \<noteq> [] \<and> audio_streams s0 \<noteq> []"
    using impl_new_cadence [of e fps fd fstr s0] by simp
  with a run_segments [of e ops s0 s]
  show "video_streams s \<noteq> []" and "audio_streams s \<noteq> []" by simp_all
next
  assume a: "video_streams s \<noteq> [] \<and> audio_streams s \<noteq> [] \<and> push_video e p s = Inr s1"
  with push_video_effect [of e p s s1]
  show "video_streams s1 \<noteq> []" and "audio_streams s1 = audio_streams s"
    and "length (video_streams s) \<le> length (video_streams s1)"
    and "take (length (video_streams s) - 1) (video_streams s1) = butlast (video_streams s)"
    by auto
next
  assume a: "video_streams s \<noteq> [] \<and> audio_streams s \<noteq> [] \<and> push_audio q s = Inr s2"
  with push_audio_effect [of q s s2]
  show "audio_streams s2 \<noteq> []" and "video_streams s2 = video_streams s"
    and "length (audio_streams s) \<le> length (audio_streams s2)"
    and "take (length (audio_streams s) - 1) (audio_streams s2) = butlast (audio_streams s)"
    by auto
next
  assume a: "video_streams s \<noteq> [] \<and> audio_streams s \<noteq> [] \<and> try_pop s = Inr (r, s3)"
  then have "apply_op e Try_pop s = Inr s3" by (simp add: apply_op_def)
  from apply_op_segments [OF this] a
  show "video_streams s3 \<noteq> []" and "audio_streams s3 \<noteq> []" by simp_all
  from a try_pop_effect [of s r s3]
  show "length (video_streams s3) = length (video_streams s) \<and>
       tl (video_streams s3) = tl (video_streams s) \<and>
       length (audio_streams s3) = length (audio_streams s) \<and>
       tl (audio_streams s3) = tl (audio_streams s)
       \<or>
       1 < length (video_streams s) \<and> 1 < length (audio_streams s) \<and>
       length (video_streams s3) = length (video_streams s) - 1 \<and>
       tl (video_streams s3) = tl (tl (video_streams s)) \<and>
       length (audio_streams s3) = length (audio_streams s) - 1 \<and>
       tl (audio_streams s3) = tl (tl (audio_streams s))" by blast
qed

text \<open>The equations that run the model on a concrete input.\<close>

lemmas eval_defs = impl_new_def apply_op_def push_video_def push_audio_def enqueue_video_def
  enqueue_audio_def check_video_def check_audio_def push_back_def push_each_def passthrough_def
  example_state_def size_t_of_int_def blank_def try_pop_two_levels try_pop_step_def assemble_def
  truncate_segments_def not_ready_def video_ready2_def audio_ready2_def mux_frame_def
  pop_video_def pop_audio_def caspar_verify_def push_frame_def

theorem segments_never_run_out_witness:
  "impl_new passthrough 25
      \<lparr>fd_fps = 25, fd_field_mode = progressive, fd_height = 576, fd_audio_cadence = [2, 3]\<rparr> []
     = Inr ((example_state [[]] [[]] invalid [2, 3])\<lparr>audio_cadence := [3, 2]\<rparr>) \<and>
   run passthrough [Push_video Empty, Push_audio (Data [1, 2]), Push_video Flush, Push_audio Flush]
      ((example_state [[]] [[]] invalid [2, 3])\<lparr>audio_cadence := [3, 2]\<rparr>)
     = Inr ((example_state [[blank], []] [[1, 2], []] simple [2, 3])\<lparr>audio_cadence := [3, 2]\<rparr>) \<and>
   push_video passthrough Flush
      ((example_state [[blank], []] [[1, 2], []] simple [2, 3])\<lparr>audio_cadence := [3, 2]\<rparr>)
     = Inr ((example_state [[blank], [], []] [[1, 2], []] simple [2, 3])\<lparr>audio_cadence := [3, 2]\<rparr>) \<and>
   push_audio (Data [7])
      ((example_state [[blank], []] [[1, 2], []] simple [2, 3])\<lparr>audio_cadence := [3, 2]\<rparr>)
     = Inr ((example_state [[blank], []] [[1, 2], [7]] simple [2, 3])\<lparr>audio_cadence := [3, 2]\<rparr>) \<and>
   try_pop ((example_state [[blank], []] [[1, 2], []] simple [2, 3])\<lparr>audio_cadence := [3, 2]\<rparr>)
     = Inr (None, (example_state [[]] [[]] simple [2, 3])\<lparr>audio_cadence := [3, 2]\<rparr>) \<and>
   video_streams ((example_state [[]] [[]] simple [2, 3])\<lparr>audio_cadence := [3, 2]\<rparr>) \<noteq> []"
proof -
  let ?fd = "\<lparr>fd_fps = 25, fd_field_mode = progressive, fd_height = 576,
              fd_audio_cadence = [2, 3]\<rparr>"
  let ?init = "(example_state [[]] [[]] invalid [2, 3])\<lparr>audio_cadence := [3, 2]\<rparr>"
  let ?st = "(example_state [[blank], []] [[1, 2], []] simple [2, 3])\<lparr>audio_cadence := [3, 2]\<rparr>"
  let ?pushed_v = "(example_state [[blank], [], []] [[1, 2], []] simple [2, 3])\<lparr>audio_cadence := [3, 2]\<rparr>"
  let ?pushed_a = "(example_state [[blank], []] [[1, 2], [7]] simple [2, 3])\<lparr>audio_cadence := [3, 2]\<rparr>"
  let ?popped = "(example_state [[]] [[]] simple [2, 3])\<lparr>audio_cadence := [3, 2]\<rparr>"
  have new: "impl_new passthrough 25 ?fd [] = Inr ?init"
    by (simp add: impl_new_def example_state_def passthrough_def)
  have run: "run passthrough
      [Push_video Empty, Push_audio (Data [1, 2]), Push_video Flush, Push_audio Flush] ?init = Inr ?st"
    by (simp add: eval_defs)
  have pv: "push_video passthrough Flush ?st = Inr ?pushed_v"
    by (simp add: eval_defs)
  have pa: "push_audio (Data [7]) ?st = Inr ?pushed_a"
    by (simp add: eval_defs)
  have tp: "try_pop ?st = Inr (None, ?popped)"
    by (simp add: eval_defs)
  from segments_never_run_out
    [of passthrough 25 ?fd "[]" ?init
        "[Push_video Empty, Push_audio (Data [1, 2]), Push_video Flush, Push_audio Flush]"
        ?st Flush ?pushed_v "Data [7]" ?pushed_a None ?popped]
    new run pv pa tp
  show ?thesis by simp
qed

subsection \<open>The cadence\<close>

text \<open>
  Claim C9. The live cadence is at all times a cyclic rotation of the base cadence of the
  format: the constructor starts it with the last base entry in front (the base rotated
  by its length minus one), every state a client reaches from there has a cadence that
  is some rotation of the base, \<^verbatim>\<open>pop_audio\<close> rotates it left by exactly one position,
  and nothing else touches it: \<^verbatim>\<open>pop_video\<close>, \<^verbatim>\<open>push_video\<close> and \<^verbatim>\<open>push_audio\<close> keep
  it, and \<^verbatim>\<open>try_pop\<close> changes it only by the one or two audio pops it makes.
\<close>

theorem cadence_is_rotation_of_base:
  "(impl_new e fps fd fstr = Inr s0 \<longrightarrow>
      audio_cadence s0 = last (fd_audio_cadence fd) # butlast (fd_audio_cadence fd) \<and>
      audio_cadence s0 = rotate (length (fd_audio_cadence fd) - 1) (fd_audio_cadence fd)) \<and>
   (impl_new e fps fd fstr = Inr s0 \<and> run e ops s0 = Inr s \<longrightarrow>
      (\<exists>n. audio_cadence s = rotate n (fd_audio_cadence fd))) \<and>
   (pop_audio s = Inr (a, s1) \<longrightarrow> audio_cadence s1 = rotate1 (audio_cadence s)) \<and>
   (pop_video s = Inr (f, s2) \<longrightarrow> audio_cadence s2 = audio_cadence s) \<and>
   (push_video e p s = Inr s3 \<longrightarrow> audio_cadence s3 = audio_cadence s) \<and>
   (push_audio q s = Inr s4 \<longrightarrow> audio_cadence s4 = audio_cadence s) \<and>
   (try_pop s = Inr (r, s5) \<longrightarrow>
      audio_cadence s5 = audio_cadence s \<or>
      audio_cadence s5 = rotate1 (audio_cadence s) \<or>
      audio_cadence s5 = rotate1 (rotate1 (audio_cadence s)))"
proof (intro conjI impI)
  assume "impl_new e fps fd fstr = Inr s0"
  from impl_new_cadence [OF this]
  show "audio_cadence s0 = last (fd_audio_cadence fd) # butlast (fd_audio_cadence fd)"
    and "audio_cadence s0 = rotate (length (fd_audio_cadence fd) - 1) (fd_audio_cadence fd)"
    by blast+
next
  assume a: "impl_new e fps fd fstr = Inr s0 \<and> run e ops s0 = Inr s"
  with impl_new_cadence [of e fps fd fstr s0]
  have fd: "format_desc s0 = fd"
    and "audio_cadence s0 = rotate (length (fd_audio_cadence fd) - 1) (fd_audio_cadence fd)"
    by blast+
  then have "\<exists>n. audio_cadence s0 = rotate n (fd_audio_cadence (format_desc s0))" by blast
  with a run_cadence [of e ops s0 s] fd
  show "\<exists>n. audio_cadence s = rotate n (fd_audio_cadence fd)" by auto
next
  assume "pop_audio s = Inr (a, s1)"
  then show "audio_cadence s1 = rotate1 (audio_cadence s)" by (simp add: pop_audio_popped)
next
  assume "pop_video s = Inr (f, s2)"
  then show "audio_cadence s2 = audio_cadence s" by (simp add: pop_video_popped)
next
  assume "push_video e p s = Inr s3"
  then show "audio_cadence s3 = audio_cadence s" by (simp add: push_video_effect)
next
  assume "push_audio q s = Inr s4"
  then show "audio_cadence s4 = audio_cadence s" by (simp add: push_audio_effect)
next
  assume "try_pop s = Inr (r, s5)"
  from try_pop_effect [OF this]
  show "audio_cadence s5 = audio_cadence s \<or>
      audio_cadence s5 = rotate1 (audio_cadence s) \<or>
      audio_cadence s5 = rotate1 (rotate1 (audio_cadence s))" by simp
qed

theorem cadence_is_rotation_of_base_witness:
  "impl_new passthrough 25
      \<lparr>fd_fps = 25, fd_field_mode = progressive, fd_height = 576,
         fd_audio_cadence = [1, 2, 3]\<rparr> []
     = Inr ((example_state [[]] [[]] invalid [1, 2, 3])\<lparr>audio_cadence := [3, 1, 2]\<rparr>) \<and>
   run passthrough [Push_video Empty, Push_video Empty, Push_audio (Data [5, 6, 7, 8, 9])]
      ((example_state [[]] [[]] invalid [1, 2, 3])\<lparr>audio_cadence := [3, 1, 2]\<rparr>)
     = Inr ((example_state [[blank, blank]] [[5, 6, 7, 8, 9]] simple [1, 2, 3])
              \<lparr>audio_cadence := [3, 1, 2]\<rparr>) \<and>
   pop_audio ((example_state [[blank, blank]] [[5, 6, 7, 8, 9]] simple [1, 2, 3])
                \<lparr>audio_cadence := [3, 1, 2]\<rparr>)
     = Inr ([5, 6, 7], (example_state [[blank, blank]] [[8, 9]] simple [1, 2, 3])
                          \<lparr>audio_cadence := [1, 2, 3]\<rparr>) \<and>
   rotate1 [3, 1, 2] = [1, 2, 3 :: cint] \<and>
   (\<exists>n. [3, 1, 2] = rotate n [1, 2, 3 :: cint])"
proof -
  let ?fd = "\<lparr>fd_fps = 25, fd_field_mode = progressive, fd_height = 576,
              fd_audio_cadence = [1, 2, 3]\<rparr>"
  let ?init = "(example_state [[]] [[]] invalid [1, 2, 3])\<lparr>audio_cadence := [3, 1, 2]\<rparr>"
  let ?st = "(example_state [[blank, blank]] [[5, 6, 7, 8, 9]] simple [1, 2, 3])
               \<lparr>audio_cadence := [3, 1, 2]\<rparr>"
  let ?pa = "(example_state [[blank, blank]] [[8, 9]] simple [1, 2, 3])
               \<lparr>audio_cadence := [1, 2, 3]\<rparr>"
  let ?pv = "(example_state [[blank]] [[5, 6, 7, 8, 9]] simple [1, 2, 3])
               \<lparr>audio_cadence := [3, 1, 2]\<rparr>"
  let ?fl = "(example_state [[blank, blank], []] [[5, 6, 7, 8, 9]] simple [1, 2, 3])
               \<lparr>audio_cadence := [3, 1, 2]\<rparr>"
  let ?fa = "(example_state [[blank, blank]] [[5, 6, 7, 8, 9], []] simple [1, 2, 3])
               \<lparr>audio_cadence := [3, 1, 2]\<rparr>"
  let ?tp = "(example_state [[blank]] [[8, 9]] simple [1, 2, 3])
               \<lparr>audio_cadence := [1, 2, 3]\<rparr>"
  have new: "impl_new passthrough 25 ?fd [] = Inr ?init"
    by (simp add: impl_new_def example_state_def passthrough_def)
  have run: "run passthrough
      [Push_video Empty, Push_video Empty, Push_audio (Data [5, 6, 7, 8, 9])] ?init = Inr ?st"
    by (simp add: eval_defs)
  have pa: "pop_audio ?st = Inr ([5, 6, 7], ?pa)" by (simp add: eval_defs)
  have pv: "pop_video ?st = Inr (blank, ?pv)" by (simp add: eval_defs)
  have fl: "push_video passthrough Flush ?st = Inr ?fl" by (simp add: eval_defs)
  have fa: "push_audio Flush ?st = Inr ?fa" by (simp add: eval_defs)
  have tp: "try_pop ?st = Inr (Some (Draw (blank\<lparr>audio_data := [5, 6, 7]\<rparr>)), ?tp)"
    by (simp add: eval_defs)
  from cadence_is_rotation_of_base
    [of passthrough 25 ?fd "[]" ?init
        "[Push_video Empty, Push_video Empty, Push_audio (Data [5, 6, 7, 8, 9])]"
        ?st "[5, 6, 7]" ?pa blank ?pv Flush ?fl Flush ?fa
        "Some (Draw (blank\<lparr>audio_data := [5, 6, 7]\<rparr>))" ?tp]
    new run pa pv fl fa tp
  show ?thesis by (simp add: example_state_def)
qed

subsection \<open>A full cadence cycle\<close>

lemma pop_audio_times_prefix:
  "n \<le> length (audio_cadence s) \<Longrightarrow> \<forall>c \<in> set (audio_cadence s). 0 \<le> sint c \<Longrightarrow>
   audio_streams s = a # rest \<Longrightarrow>
   sum_list (map (\<lambda>c. nat (sint c)) (take n (audio_cadence s))) \<le> length a \<Longrightarrow>
   \<exists>chunks. pop_audio_times n s
       = Inr (chunks,
              s\<lparr>audio_streams :=
                   drop (sum_list (map (\<lambda>c. nat (sint c)) (take n (audio_cadence s)))) a # rest,
                 audio_cadence := rotate n (audio_cadence s)\<rparr>) \<and>
     map length chunks = map (\<lambda>c. nat (sint c)) (take n (audio_cadence s)) \<and>
     concat chunks = take (sum_list (map (\<lambda>c. nat (sint c)) (take n (audio_cadence s)))) a"
proof (induction n arbitrary: s a)
  case 0
  then show ?case by simp
next
  case (Suc n)
  from Suc.prems(1) obtain c cs where cad: "audio_cadence s = c # cs"
    by (cases "audio_cadence s") auto
  let ?k = "nat (sint c)"
  let ?s1 = "s\<lparr>audio_streams := drop ?k a # rest, audio_cadence := rotate1 (c # cs)\<rparr>"
  from Suc.prems(2) cad have c0: "0 \<le> sint c" by simp
  from Suc.prems(4) cad have le: "?k + sum_list (map (\<lambda>c. nat (sint c)) (take n cs)) \<le> length a"
    by simp
  then have "?k \<le> length a" by simp
  with c0 cad Suc.prems(3) have pop: "pop_audio s = Inr (take ?k a, ?s1)"
    by (simp add: pop_audio_def caspar_verify_def size_t_of_int_nonneg)
  from Suc.prems(1) cad have n: "n \<le> length cs" by simp
  then have tk: "take n (cs @ [c]) = take n cs" by simp
  have 1: "n \<le> length (audio_cadence ?s1)" using n by simp
  have 2: "\<forall>c \<in> set (audio_cadence ?s1). 0 \<le> sint c" using Suc.prems(2) cad by auto
  have 3: "audio_streams ?s1 = drop ?k a # rest" by simp
  have 4: "sum_list (map (\<lambda>c. nat (sint c)) (take n (audio_cadence ?s1))) \<le> length (drop ?k a)"
    using le n by simp
  from Suc.IH [OF 1 2 3 4] obtain chunks where
    r: "pop_audio_times n ?s1
       = Inr (chunks,
              ?s1\<lparr>audio_streams :=
                   drop (sum_list (map (\<lambda>c. nat (sint c)) (take n (audio_cadence ?s1)))) (drop ?k a) # rest,
                 audio_cadence := rotate n (audio_cadence ?s1)\<rparr>)"
    and l: "map length chunks = map (\<lambda>c. nat (sint c)) (take n (audio_cadence ?s1))"
    and cc: "concat chunks = take (sum_list (map (\<lambda>c. nat (sint c)) (take n (audio_cadence ?s1)))) (drop ?k a)"
    by blast
  have rot: "rotate n (cs @ [c]) = rotate (Suc n) (c # cs)"
    by (simp add: rotate1_rotate_swap)
  let ?m = "sum_list (map (\<lambda>c. nat (sint c)) (take n cs))"
  have st: "pop_audio_times (Suc n) s = Inr (take ?k a # chunks,
      s\<lparr>audio_streams := drop (?k + ?m) a # rest, audio_cadence := rotate (Suc n) (c # cs)\<rparr>)"
    using r n by (simp add: pop rot add.commute del: rotate_Suc)
  have len: "map length (take ?k a # chunks) = ?k # map (\<lambda>c. nat (sint c)) (take n cs)"
    using l n \<open>?k \<le> length a\<close> by simp
  have con: "concat (take ?k a # chunks) = take (?k + ?m) a"
    using cc n by (simp add: take_add)
  from st len con show ?case
    unfolding cad by (intro exI [of _ "take ?k a # chunks"]) (simp del: rotate_Suc)
qed


lemma sum_list_map_rotate: "sum_list (map f (rotate n xs)) = sum_list (map (f :: 'a \<Rightarrow> nat) xs)"
proof (induction n)
  case 0
  then show ?case by simp
next
  case (Suc n)
  have "sum_list (map f (rotate1 ys)) = sum_list (map f ys)" for ys
    by (cases ys) simp_all
  with Suc show ?case by simp
qed

text \<open>
  Claim C3. Let the live cadence be any rotation of a base sequence of \<open>k\<close> positive
  entries that sum to \<open>S\<close>, and let the front audio segment hold at least \<open>S\<close> samples
  (which is what the preconditions of the \<open>k\<close> pops add up to). Then \<open>k\<close> pops in a row
  all succeed, they take the first \<open>S\<close> samples off the front segment and nothing else,
  the chunk sizes are the cadence entries in their live order, and the cadence is back
  where it started. A single pop with at least the cadence head's count of samples in
  front removes exactly that many samples from the front and moves the head of the
  cadence to its end.
\<close>

theorem pop_audio_cycle_consumes_sum:
  "(audio_cadence s = rotate r base \<and> (\<forall>c \<in> set base. 0 < sint c) \<and>
    audio_streams s = a # rest \<and> sum_list (map (\<lambda>c. nat (sint c)) base) \<le> length a \<longrightarrow>
      (\<exists>chunks.
         pop_audio_times (length base) s
           = Inr (chunks,
                  s\<lparr>audio_streams := drop (sum_list (map (\<lambda>c. nat (sint c)) base)) a # rest\<rparr>) \<and>
         map length chunks = map (\<lambda>c. nat (sint c)) (audio_cadence s) \<and>
         concat chunks = take (sum_list (map (\<lambda>c. nat (sint c)) base)) a)) \<and>
   (audio_streams s = a # rest \<and> audio_cadence s = c # cs \<and> 0 < sint c \<and>
    nat (sint c) \<le> length a \<longrightarrow>
      pop_audio s = Inr (take (nat (sint c)) a,
                         s\<lparr>audio_streams := drop (nat (sint c)) a # rest,
                           audio_cadence := cs @ [c]\<rparr>))"
proof (intro conjI impI)
  assume h: "audio_cadence s = rotate r base \<and> (\<forall>c \<in> set base. 0 < sint c) \<and>
    audio_streams s = a # rest \<and> sum_list (map (\<lambda>c. nat (sint c)) base) \<le> length a"
  let ?S = "sum_list (map (\<lambda>c. nat (sint c)) base)"
  from h have len: "length (audio_cadence s) = length base" by simp
  from h have sum: "sum_list (map (\<lambda>c. nat (sint c)) (audio_cadence s)) = ?S"
    by (simp add: sum_list_map_rotate)
  have 1: "length base \<le> length (audio_cadence s)" using len by simp
  have 2: "\<forall>c \<in> set (audio_cadence s). 0 \<le> sint c" using h by auto
  have 3: "audio_streams s = a # rest" using h by simp
  have 4: "sum_list (map (\<lambda>c. nat (sint c)) (take (length base) (audio_cadence s))) \<le> length a"
    using h sum len by simp
  from pop_audio_times_prefix [OF 1 2 3 4] obtain chunks where
    "pop_audio_times (length base) s
       = Inr (chunks,
              s\<lparr>audio_streams :=
                   drop (sum_list (map (\<lambda>c. nat (sint c)) (take (length base) (audio_cadence s)))) a # rest,
                 audio_cadence := rotate (length base) (audio_cadence s)\<rparr>)"
    and "map length chunks = map (\<lambda>c. nat (sint c)) (take (length base) (audio_cadence s))"
    and "concat chunks = take (sum_list (map (\<lambda>c. nat (sint c)) (take (length base) (audio_cadence s)))) a"
    by blast
  moreover have "take (length base) (audio_cadence s) = audio_cadence s" using len by simp
  moreover have "rotate (length base) (audio_cadence s) = audio_cadence s"
    using len rotate_length01 [of "audio_cadence s"] by (metis rotate_id mod_self)
  ultimately show "\<exists>chunks.
         pop_audio_times (length base) s
           = Inr (chunks, s\<lparr>audio_streams := drop ?S a # rest\<rparr>) \<and>
         map length chunks = map (\<lambda>c. nat (sint c)) (audio_cadence s) \<and>
         concat chunks = take ?S a"
    using sum by (intro exI [of _ chunks]) simp
next
  assume "audio_streams s = a # rest \<and> audio_cadence s = c # cs \<and> 0 < sint c \<and>
    nat (sint c) \<le> length a"
  then show "pop_audio s = Inr (take (nat (sint c)) a,
                         s\<lparr>audio_streams := drop (nat (sint c)) a # rest,
                           audio_cadence := cs @ [c]\<rparr>)"
    by (simp add: pop_audio_def caspar_verify_def size_t_of_int_nonneg)
qed

theorem pop_audio_cycle_consumes_sum_witness:
  "audio_cadence (example_state [[]] [[5, 6, 7, 8, 9, 10, 11]] simple [3, 1, 2])
     = rotate 2 [1, 2, 3] \<and>
   (\<exists>chunks.
      pop_audio_times (length [1, 2, 3 :: cint])
          (example_state [[]] [[5, 6, 7, 8, 9, 10, 11]] simple [3, 1, 2])
        = Inr (chunks, example_state [[]] [[11]] simple [3, 1, 2]) \<and>
      map length chunks = [3, 1, 2] \<and> concat chunks = [5, 6, 7, 8, 9, 10]) \<and>
   pop_audio (example_state [[]] [[5, 6, 7, 8, 9, 10, 11]] simple [3, 1, 2])
     = Inr ([5, 6, 7],
            (example_state [[]] [[8, 9, 10, 11]] simple [3, 1, 2])\<lparr>audio_cadence := [1, 2, 3]\<rparr>)"
proof -
  let ?st = "example_state [[]] [[5, 6, 7, 8, 9, 10, 11]] simple [3, 1, 2]"
  have rot: "audio_cadence ?st = rotate 2 [1, 2, 3]"
    by (simp add: numeral_2_eq_2 example_state_def)
  have pos: "\<forall>c \<in> set [1, 2, 3 :: cint]. 0 < sint c" by simp
  have front: "audio_streams ?st = [5, 6, 7, 8, 9, 10, 11] # []"
    by (simp add: example_state_def)
  have enough: "sum_list (map (\<lambda>c. nat (sint c)) [1, 2, 3 :: cint])
      \<le> length [5, 6, 7, 8, 9, 10, 11 :: sample]" by simp
  have head: "audio_cadence ?st = 3 # [1, 2]" by (simp add: example_state_def)
  have one: "0 < sint (3 :: cint) \<and> nat (sint (3 :: cint)) \<le> length [5, 6, 7, 8, 9, 10, 11 :: sample]"
    by simp
  note inst = pop_audio_cycle_consumes_sum
    [of ?st 2 "[1, 2, 3]" "[5, 6, 7, 8, 9, 10, 11]" "[]" 3 "[1, 2]"]
  from inst rot pos front enough have cycle: "\<exists>chunks.
         pop_audio_times (length [1, 2, 3 :: cint]) ?st
           = Inr (chunks,
                  ?st\<lparr>audio_streams := drop (sum_list (map (\<lambda>c. nat (sint c)) [1, 2, 3 :: cint]))
                           [5, 6, 7, 8, 9, 10, 11] # []\<rparr>) \<and>
         map length chunks = map (\<lambda>c. nat (sint c)) (audio_cadence ?st) \<and>
         concat chunks = take (sum_list (map (\<lambda>c. nat (sint c)) [1, 2, 3 :: cint]))
                           [5, 6, 7, 8, 9, 10, 11]"
    by blast
  from inst front head one have single: "pop_audio ?st = Inr (take (nat (sint (3 :: cint))) [5, 6, 7, 8, 9, 10, 11],
                         ?st\<lparr>audio_streams := drop (nat (sint (3 :: cint))) [5, 6, 7, 8, 9, 10, 11] # [],
                           audio_cadence := [1, 2] @ [3]\<rparr>)"
    by blast
  have st1: "?st\<lparr>audio_streams := drop (sum_list (map (\<lambda>c. nat (sint c)) [1, 2, 3 :: cint]))
                           [5, 6, 7, 8, 9, 10, 11] # []\<rparr> = example_state [[]] [[11]] simple [3, 1, 2]"
    by (simp add: example_state_def)
  have st2: "?st\<lparr>audio_streams := drop (nat (sint (3 :: cint))) [5, 6, 7, 8, 9, 10, 11] # [],
                           audio_cadence := [1, 2] @ [3]\<rparr>
     = (example_state [[]] [[8, 9, 10, 11]] simple [3, 1, 2])\<lparr>audio_cadence := [1, 2, 3]\<rparr>"
    by (simp add: example_state_def)
  have ev: "map (\<lambda>c. nat (sint c)) (audio_cadence ?st) = [3, 1, 2]"
    "take (sum_list (map (\<lambda>c. nat (sint c)) [1, 2, 3 :: cint])) [5, 6, 7, 8, 9, 10, 11 :: sample]
       = [5, 6, 7, 8, 9, 10]"
    "take (nat (sint (3 :: cint))) [5, 6, 7, 8, 9, 10, 11 :: sample] = [5, 6, 7]"
    by (simp_all add: example_state_def)
  from cycle single rot show ?thesis
    unfolding st1 st2 ev by blast
qed

subsection \<open>Segment boundaries\<close>

lemma truncate_segments_drops:
  assumes "1 < length (video_streams s)" and "1 < length (audio_streams s)"
    and "video_ready2 s = Inr False \<or> audio_ready2 s = Inr False"
  shows "truncate_segments s
     = Inr (s\<lparr>video_streams := tl (video_streams s), audio_streams := tl (audio_streams s)\<rparr>)"
proof -
  from assms(1) obtain b where "video_ready2 s = Inr b"
    by (cases "video_streams s") (auto simp: video_ready2_def)
  with assms show ?thesis
    by (cases b) (auto simp: truncate_segments_def)
qed

text \<open>
  Claim C6. When \<^verbatim>\<open>try_pop\<close> gets past the output buffer with more than one segment in
  both streams and a front segment of either stream that is not ready for the display
  mode, it drops the front segment of both streams with whatever they hold, and only
  then evaluates readiness, on the state without them. Whatever the call returns, both
  streams are one segment shorter afterwards and the later segments are in place, so the
  state has changed: leftover data at a segment boundary cannot hold the pipeline where
  it is.
\<close>

theorem truncation_drops_both_fronts:
  "(frame_buffer s = [] \<and> 1 < length (video_streams s) \<and> 1 < length (audio_streams s) \<and>
    (video_ready2 s = Inr False \<or> audio_ready2 s = Inr False) \<longrightarrow>
      truncate_segments s
        = Inr (s\<lparr>video_streams := tl (video_streams s),
                  audio_streams := tl (audio_streams s)\<rparr>) \<and>
      try_pop_step s
        = assemble (s\<lparr>video_streams := tl (video_streams s),
                       audio_streams := tl (audio_streams s)\<rparr>)) \<and>
   (frame_buffer s = [] \<and> 1 < length (video_streams s) \<and> 1 < length (audio_streams s) \<and>
    (video_ready2 s = Inr False \<or> audio_ready2 s = Inr False) \<and>
    try_pop s = Inr (r, s') \<longrightarrow>
      length (video_streams s') = length (video_streams s) - 1 \<and>
      tl (video_streams s') = tl (tl (video_streams s)) \<and>
      length (audio_streams s') = length (audio_streams s) - 1 \<and>
      tl (audio_streams s') = tl (tl (audio_streams s)) \<and>
      s' \<noteq> s)"
proof (intro conjI impI)
  assume h: "frame_buffer s = [] \<and> 1 < length (video_streams s) \<and>
    1 < length (audio_streams s) \<and> (video_ready2 s = Inr False \<or> audio_ready2 s = Inr False)"
  then show t: "truncate_segments s
        = Inr (s\<lparr>video_streams := tl (video_streams s),
                  audio_streams := tl (audio_streams s)\<rparr>)"
    by (simp add: truncate_segments_drops)
  then show "try_pop_step s
        = assemble (s\<lparr>video_streams := tl (video_streams s),
                       audio_streams := tl (audio_streams s)\<rparr>)"
    by (simp add: try_pop_step_def)
next
  assume h: "frame_buffer s = [] \<and> 1 < length (video_streams s) \<and>
    1 < length (audio_streams s) \<and> (video_ready2 s = Inr False \<or> audio_ready2 s = Inr False) \<and>
    try_pop s = Inr (r, s')"
  let ?d = "s\<lparr>video_streams := tl (video_streams s), audio_streams := tl (audio_streams s)\<rparr>"
  from h have t: "truncate_segments s = Inr ?d" by (simp add: truncate_segments_drops)
  from h have fb: "frame_buffer s = []" by simp
  from h have "try_pop s = Inr (r, s')" by simp
  with fb have tp: "(case try_pop_step s of
             Inl err \<Rightarrow> Inl err
           | Inr (Return_false s1) \<Rightarrow> Inr (None, s1)
           | Inr (Retry s2) \<Rightarrow>
               Inr (Some (hd (frame_buffer s2)), s2\<lparr>frame_buffer := tl (frame_buffer s2)\<rparr>))
      = Inr (r, s')"
    by (simp add: try_pop_two_levels [of s])
  have eff: "length (video_streams s') = length (video_streams ?d) \<and>
             tl (video_streams s') = tl (video_streams ?d) \<and>
             length (audio_streams s') = length (audio_streams ?d) \<and>
             tl (audio_streams s') = tl (audio_streams ?d)"
  proof (cases "try_pop_step s")
    case (Inl err)
    with tp show ?thesis by simp
  next
    case (Inr x)
    show ?thesis
    proof (cases x)
      case (Return_false s1)
      with Inr tp have "s' = s1" by simp
      moreover from Inr Return_false t have "s1 = ?d"
        using try_pop_step_Return_false [of s s1] by simp
      ultimately show ?thesis by simp
    next
      case (Retry s2)
      with Inr tp have s': "s' = s2\<lparr>frame_buffer := tl (frame_buffer s2)\<rparr>"
        by simp
      from Inr Retry t have "mux_frame ?d = Inr s2"
        using try_pop_step_Retry [of s s2] by auto
      from mux_frame_effect [OF this] s' show ?thesis by (simp add: fronts_popped_def)
    qed
  qed
  then show "length (video_streams s') = length (video_streams s) - 1"
    and "tl (video_streams s') = tl (tl (video_streams s))"
    and "length (audio_streams s') = length (audio_streams s) - 1"
    and "tl (audio_streams s') = tl (tl (audio_streams s))"
    by simp_all
  from h have "1 < length (video_streams s)" by simp
  with eff have "length (video_streams s') \<noteq> length (video_streams s)" by simp
  then show "s' \<noteq> s" by auto
qed

theorem truncation_drops_both_fronts_witness:
  "video_ready2 ((example_state [[blank], [blank, blank]] [[1, 2], [4, 5, 6, 7]] interlace [2, 3])
                   \<lparr>audio_cadence := [3, 2]\<rparr>) = Inr False \<and>
   try_pop ((example_state [[blank], [blank, blank]] [[1, 2], [4, 5, 6, 7]] interlace [2, 3])
              \<lparr>audio_cadence := [3, 2]\<rparr>)
     = Inr (Some (Interlaced (Draw (blank\<lparr>audio_data := [4, 5, 6]\<rparr>)) (Draw blank) progressive),
            example_state [[]] [[7]] interlace [2, 3]) \<and>
   length (video_streams (example_state [[]] [[7]] interlace [2, 3])) = 2 - 1"
proof -
  let ?st = "(example_state [[blank], [blank, blank]] [[1, 2], [4, 5, 6, 7]] interlace [2, 3])
               \<lparr>audio_cadence := [3, 2]\<rparr>"
  have fb: "frame_buffer ?st = []" and lv: "1 < length (video_streams ?st)"
    and la: "1 < length (audio_streams ?st)" and len: "length (video_streams ?st) = 2"
    by (simp_all add: example_state_def)
  have nr: "video_ready2 ?st = Inr False" by (simp add: eval_defs)
  have tp: "try_pop ?st
     = Inr (Some (Interlaced (Draw (blank\<lparr>audio_data := [4, 5, 6]\<rparr>)) (Draw blank) progressive),
            example_state [[]] [[7]] interlace [2, 3])"
    by (simp add: eval_defs)
  from truncation_drops_both_fronts
    [of ?st "Some (Interlaced (Draw (blank\<lparr>audio_data := [4, 5, 6]\<rparr>)) (Draw blank) progressive)"
        "example_state [[]] [[7]] interlace [2, 3]"]
    fb lv la nr tp
  have "length (video_streams (example_state [[]] [[7]] interlace [2, 3]))
      = length (video_streams ?st) - 1" by blast
  with nr tp len show ?thesis by simp
qed

subsection \<open>Duplicate mode\<close>







text \<open>A bound \<open>m\<close> on every cadence entry and \<open>2 * n * m\<close> samples are enough.\<close>

lemma duplicate_audio_enough_bound:
  "cad \<noteq> [] \<Longrightarrow> \<forall>c \<in> set cad. 0 \<le> sint c \<and> nat (sint c) \<le> m \<Longrightarrow> 2 * n * m \<le> len \<Longrightarrow>
   duplicate_audio_enough cad n len"
proof (induction n arbitrary: cad len)
  case 0
  then show ?case by simp
next
  case (Suc n)
  from Suc.prems(1) obtain c1 cs where c: "cad = c1 # cs" by (cases cad) auto
  obtain c2 cs2 where c': "cs @ [c1] = c2 # cs2" by (cases "cs @ [c1]") auto
  have set1: "set (cs2 @ [c2]) = set (c1 # cs)"
    using c' by (metis set_rotate1 rotate1.simps(2))
  then have "c2 \<in> set (c1 # cs)" by auto
  with Suc.prems(2) c have b2: "0 \<le> sint c2" "nat (sint c2) \<le> m" by auto
  from Suc.prems(2) c have b1: "0 \<le> sint c1" "nat (sint c1) \<le> m" by auto
  from Suc.prems(3) have big: "2 * m + 2 * n * m \<le> len" by simp
  have "duplicate_audio_enough (cs2 @ [c2]) n (len - (nat (sint c1) + nat (sint c2)))"
  proof (rule Suc.IH)
    show "cs2 @ [c2] \<noteq> []" by simp
    show "\<forall>c \<in> set (cs2 @ [c2]). 0 \<le> sint c \<and> nat (sint c) \<le> m"
      using Suc.prems(2) c set1 by simp
    show "2 * n * m \<le> len - (nat (sint c1) + nat (sint c2))"
      using big b1 b2 by simp
  qed
  with b1 b2 big show ?case by (simp add: c c')
qed






text \<open>
  The other face of the same readiness test: it compares with twice the current cadence
  head, and the second pop uses the next entry. With cadence 2, 3 and four samples the
  state is ready, and the second pop fails its assertion.
\<close>

lemma duplicate_second_pop_needs_next_entry:
  "audio_ready2 (example_state [[blank]] [[1, 2, 3, 4]] duplicate [2, 3]) = Inr True \<and>
   try_pop (example_state [[blank]] [[1, 2, 3, 4]] duplicate [2, 3]) = Inl Verify_failed"
  by (simp add: eval_defs)

end
